theory Spec2Isabelle
  imports Main "HOL-Library.Word"
begin

unbundle bit_operations_syntax

section \<open>Canonical events\<close>

text \<open>
  Modelled from the spec: the declarations of \<open>Key\<close>, \<open>KeyState\<close> and \<open>KeyEvent\<close> live in
  \<open>runtime/KeyEvent.h\<close>, which is not among the sources. The spec describes a single 16-bit
  key space and an event \<open>{key, state, value}\<close>; the sources cast a key to \<open>uint16_t\<close> and
  \<open>unsigned short\<close>, build the value with \<open>KeyEvent::value_t\<close> from a wheel delta and mask it
  with \<open>0x7FF\<close>. A key is therefore a 16-bit word, and \<open>value_t\<close> is taken to be an unsigned
  16-bit integer whose default is 0. \<open>KeyState\<close> has the two states of the spec and the
  output-only state \<open>OutputOnRelease\<close> that the sources mention.
\<close>

type_synonym Key = "16 word"

datatype KeyState = Up | Down | OutputOnRelease

record KeyEvent =
  ev_key :: Key
  ev_state :: KeyState
  ev_value :: "16 word"

text \<open>
  The numeric values of the named enumerators of \<open>Key\<close> are fixed by the missing header.
  Every function that mentions one takes them as a parameter: a table of the named keys.
\<close>

record key_names =
  Key_none :: Key
  ButtonLeft :: Key
  ButtonRight :: Key
  ButtonMiddle :: Key
  ButtonBack :: Key
  ButtonForward :: Key
  WheelUp :: Key
  WheelDown :: Key
  WheelLeft :: Key
  WheelRight :: Key
  F1 :: Key
  F2 :: Key
  F3 :: Key
  F4 :: Key
  F5 :: Key
  F6 :: Key
  F7 :: Key
  F8 :: Key
  F9 :: Key
  F10 :: Key
  F11 :: Key
  F12 :: Key

text \<open>\<open>KeyEvent{ key, state }\<close>: the value takes its default.\<close>

definition mk_KeyEvent :: "Key \<Rightarrow> KeyState \<Rightarrow> KeyEvent" where
  "mk_KeyEvent k s = \<lparr>ev_key = k, ev_state = s, ev_value = 0\<rparr>"

section \<open>The virtual output device (VirtualDeviceImpl)\<close>

datatype State = initializing | connected | disconnected

text \<open>
  The three report objects of the Karabiner driver kit each hold a set of 16-bit usages with
  \<open>insert\<close> and \<open>erase\<close>; a posted report carries the whole set. The reports handed to
  \<open>m_client->async_post_report\<close> are collected, oldest first, in \<open>posted\<close>.
\<close>

datatype hid_report =
    keyboard_input "16 word set"
  | consumer_input "16 word set"
  | generic_desktop_input "16 word set"

record VirtualDeviceImpl =
  m_state :: State
  m_keyboard :: "16 word set"
  m_consumer :: "16 word set"
  m_desktop :: "16 word set"
  m_fn_key_hold :: bool
  posted :: "hid_report list"

text \<open>A freshly constructed object: every member value-initialised.\<close>

definition VirtualDeviceImpl_new :: VirtualDeviceImpl where
  "VirtualDeviceImpl_new =
     \<lparr>m_state = initializing, m_keyboard = {}, m_consumer = {}, m_desktop = {},
      m_fn_key_hold = False, posted = []\<rparr>"

text \<open>Usage constants of Apple's \<open>IOHIDUsageTables.h\<close>.\<close>

definition kHIDPage_KeyboardOrKeypad :: int where "kHIDPage_KeyboardOrKeypad = 0x07"
definition kHIDUsage_KeyboardA :: int where "kHIDUsage_KeyboardA = 0x04"
definition kHIDUsage_KeyboardRightGUI :: int where "kHIDUsage_KeyboardRightGUI = 0xE7"
definition kHIDUsage_GD_DoNotDisturb :: "16 word" where "kHIDUsage_GD_DoNotDisturb = 0x9B"
definition kHIDUsage_Csmr_DisplayBrightnessDecrement :: "16 word" where
  "kHIDUsage_Csmr_DisplayBrightnessDecrement = 0x70"
definition kHIDUsage_Csmr_DisplayBrightnessIncrement :: "16 word" where
  "kHIDUsage_Csmr_DisplayBrightnessIncrement = 0x6F"
definition kHIDUsage_Csmr_ACDesktopShowAllWindows :: "16 word" where
  "kHIDUsage_Csmr_ACDesktopShowAllWindows = 0x29F"
definition kHIDUsage_Csmr_ACSearch :: "16 word" where "kHIDUsage_Csmr_ACSearch = 0x221"
definition kHIDUsage_Csmr_VoiceCommand :: "16 word" where "kHIDUsage_Csmr_VoiceCommand = 0xCF"
definition kHIDUsage_Csmr_ScanPreviousTrack :: "16 word" where
  "kHIDUsage_Csmr_ScanPreviousTrack = 0xB6"
definition kHIDUsage_Csmr_PlayOrPause :: "16 word" where "kHIDUsage_Csmr_PlayOrPause = 0xCD"
definition kHIDUsage_Csmr_ScanNextTrack :: "16 word" where "kHIDUsage_Csmr_ScanNextTrack = 0xB5"
definition kHIDUsage_Csmr_Mute :: "16 word" where "kHIDUsage_Csmr_Mute = 0xE2"
definition kHIDUsage_Csmr_VolumeDecrement :: "16 word" where
  "kHIDUsage_Csmr_VolumeDecrement = 0xEA"
definition kHIDUsage_Csmr_VolumeIncrement :: "16 word" where
  "kHIDUsage_Csmr_VolumeIncrement = 0xE9"

text \<open>
  The \<open>switch\<close> inside \<open>send_key_event\<close>: the function-row substitutions, with \<open>default\<close>
  sharing the branch of \<open>F1\<close>. Case labels of a \<open>switch\<close> are pairwise distinct, so the order
  of the tests is immaterial.
\<close>

definition fn_key_usage :: "key_names \<Rightarrow> Key \<Rightarrow> 16 word" where
  "fn_key_usage kn k =
     (if k = F1 kn then kHIDUsage_Csmr_DisplayBrightnessDecrement
      else if k = F2 kn then kHIDUsage_Csmr_DisplayBrightnessIncrement
      else if k = F3 kn then kHIDUsage_Csmr_ACDesktopShowAllWindows
      else if k = F4 kn then kHIDUsage_Csmr_ACSearch
      else if k = F5 kn then kHIDUsage_Csmr_VoiceCommand
      else if k = F7 kn then kHIDUsage_Csmr_ScanPreviousTrack
      else if k = F8 kn then kHIDUsage_Csmr_PlayOrPause
      else if k = F9 kn then kHIDUsage_Csmr_ScanNextTrack
      else if k = F10 kn then kHIDUsage_Csmr_Mute
      else if k = F11 kn then kHIDUsage_Csmr_VolumeDecrement
      else if k = F12 kn then kHIDUsage_Csmr_VolumeIncrement
      else kHIDUsage_Csmr_DisplayBrightnessDecrement)"

text \<open>\<open>keys.insert\<close> on Down, \<open>keys.erase\<close> otherwise.\<close>

definition update_keys :: "KeyState \<Rightarrow> 16 word \<Rightarrow> 16 word set \<Rightarrow> 16 word set" where
  "update_keys s k keys = (if s = Down then insert k keys else keys - {k})"

definition send_key_event ::
  "key_names \<Rightarrow> KeyEvent \<Rightarrow> VirtualDeviceImpl \<Rightarrow> bool \<times> VirtualDeviceImpl" where
  "send_key_event kn event d =
     (if m_state d \<noteq> connected then (False, d)
      else if \<not> m_fn_key_hold d \<and> ev_key event = F6 kn then
        (let keys = update_keys (ev_state event) kHIDUsage_GD_DoNotDisturb (m_desktop d)
         in (True, d\<lparr>m_desktop := keys, posted := posted d @ [generic_desktop_input keys]\<rparr>))
      else if \<not> m_fn_key_hold d \<and> F1 kn \<le> ev_key event \<and> ev_key event \<le> F12 kn then
        (let keys = update_keys (ev_state event) (fn_key_usage kn (ev_key event)) (m_consumer d)
         in (True, d\<lparr>m_consumer := keys, posted := posted d @ [consumer_input keys]\<rparr>))
      else
        (let keys = update_keys (ev_state event) (ev_key event) (m_keyboard d)
         in (True, d\<lparr>m_keyboard := keys, posted := posted d @ [keyboard_input keys]\<rparr>)))"

definition send_event :: "int \<Rightarrow> int \<Rightarrow> int \<Rightarrow> VirtualDeviceImpl \<Rightarrow> bool \<times> VirtualDeviceImpl" where
  "send_event page usage val d =
     (if page = kHIDPage_KeyboardOrKeypad \<and>
         (usage < kHIDUsage_KeyboardA \<or> usage > kHIDUsage_KeyboardRightGUI)
      then (False, d)
      else if page = 0xFF then (True, d\<lparr>m_fn_key_hold := (val \<noteq> 0)\<rparr>)
      else (True, d))"

subsection \<open>The connection handshake of create\<close>

text \<open>
  The signals of the virtual-device service, one constructor for each handler that \<open>create\<close>
  connects. The handlers run on the service's dispatcher, between the reads of \<open>m_state\<close>
  that \<open>create\<close> makes.
\<close>

datatype signal =
    sig_connected
  | sig_warning_reported
  | sig_connect_failed
  | sig_closed
  | sig_error_occurred
  | sig_driver_version_mismatched bool
  | sig_virtual_hid_keyboard_ready bool

fun on_signal :: "State \<Rightarrow> signal \<Rightarrow> State" where
  "on_signal s sig_connected = s"
| "on_signal s sig_warning_reported = s"
| "on_signal s sig_connect_failed = disconnected"
| "on_signal s sig_closed = disconnected"
| "on_signal s sig_error_occurred = disconnected"
| "on_signal s (sig_driver_version_mismatched b) = (if b then disconnected else s)"
| "on_signal s (sig_virtual_hid_keyboard_ready ready) =
     (if s = initializing \<and> ready then connected else s)"

definition deliver :: "State \<Rightarrow> signal list \<Rightarrow> State" where
  "deliver s sigs = foldl on_signal s sigs"

text \<open>
  \<open>create\<close> reads \<open>m_state\<close> once for each test of the loop condition and once more for the
  result. \<open>env k\<close> lists the signals handled before the read number \<open>k\<close> (counting from 0)
  and after the previous one: \<open>env 0\<close> arrives between \<open>async_start\<close> and the first test,
  \<open>env (i + 1)\<close> during the sleep of round \<open>i\<close>, or, when the loop has just ended, between
  its last test and the final read. \<open>create_wait env i s\<close> is the loop from the test of
  round \<open>i\<close>, which reads \<open>s\<close>; it returns the round at which the loop ends and the state read
  there.
\<close>

function create_wait :: "(nat \<Rightarrow> signal list) \<Rightarrow> nat \<Rightarrow> State \<Rightarrow> nat \<times> State" where
  "create_wait env i s =
     (if s = initializing \<and> i < 30 then create_wait env (Suc i) (deliver s (env (Suc i)))
      else (i, s))"
  by pat_completeness auto
termination
  by (relation "measure (\<lambda>(env, i, s). 30 - i)") auto

definition create :: "(nat \<Rightarrow> signal list) \<Rightarrow> VirtualDeviceImpl \<Rightarrow> bool \<times> VirtualDeviceImpl" where
  "create env d =
     (case create_wait env 0 (deliver (m_state d) (env 0)) of
        (i, s) \<Rightarrow>
          (let s' = deliver s (env (Suc i)) in (s' = connected, d\<lparr>m_state := s'\<rparr>)))"

section \<open>Native strokes of the Interception driver\<close>

text \<open>
  The stroke structures and flag constants of the driver's \<open>interception.h\<close>. \<open>rolling\<close> is a
  signed 16-bit field: it is kept as a word and read with \<open>sint\<close>.
\<close>

record InterceptionKeyStroke =
  ks_code :: "16 word"
  ks_state :: "16 word"
  ks_information :: "32 word"

record InterceptionMouseStroke =
  ms_state :: "16 word"
  ms_flags :: "16 word"
  ms_rolling :: "16 word"
  ms_x :: "32 word"
  ms_y :: "32 word"
  ms_information :: "32 word"

definition INTERCEPTION_KEY_DOWN :: "16 word" where "INTERCEPTION_KEY_DOWN = 0x00"
definition INTERCEPTION_KEY_UP :: "16 word" where "INTERCEPTION_KEY_UP = 0x01"
definition INTERCEPTION_KEY_E0 :: "16 word" where "INTERCEPTION_KEY_E0 = 0x02"

definition INTERCEPTION_MOUSE_BUTTON_1_DOWN :: "16 word" where
  "INTERCEPTION_MOUSE_BUTTON_1_DOWN = 0x001"
definition INTERCEPTION_MOUSE_BUTTON_1_UP :: "16 word" where
  "INTERCEPTION_MOUSE_BUTTON_1_UP = 0x002"
definition INTERCEPTION_MOUSE_BUTTON_2_DOWN :: "16 word" where
  "INTERCEPTION_MOUSE_BUTTON_2_DOWN = 0x004"
definition INTERCEPTION_MOUSE_BUTTON_2_UP :: "16 word" where
  "INTERCEPTION_MOUSE_BUTTON_2_UP = 0x008"
definition INTERCEPTION_MOUSE_BUTTON_3_DOWN :: "16 word" where
  "INTERCEPTION_MOUSE_BUTTON_3_DOWN = 0x010"
definition INTERCEPTION_MOUSE_BUTTON_3_UP :: "16 word" where
  "INTERCEPTION_MOUSE_BUTTON_3_UP = 0x020"
definition INTERCEPTION_MOUSE_BUTTON_4_DOWN :: "16 word" where
  "INTERCEPTION_MOUSE_BUTTON_4_DOWN = 0x040"
definition INTERCEPTION_MOUSE_BUTTON_4_UP :: "16 word" where
  "INTERCEPTION_MOUSE_BUTTON_4_UP = 0x080"
definition INTERCEPTION_MOUSE_BUTTON_5_DOWN :: "16 word" where
  "INTERCEPTION_MOUSE_BUTTON_5_DOWN = 0x100"
definition INTERCEPTION_MOUSE_BUTTON_5_UP :: "16 word" where
  "INTERCEPTION_MOUSE_BUTTON_5_UP = 0x200"
definition INTERCEPTION_MOUSE_WHEEL :: "16 word" where "INTERCEPTION_MOUSE_WHEEL = 0x400"
definition INTERCEPTION_MOUSE_HWHEEL :: "16 word" where "INTERCEPTION_MOUSE_HWHEEL = 0x800"

text \<open>\<open>WHEEL_DELTA\<close> of \<open>winuser.h\<close>.\<close>

definition WHEEL_DELTA :: "16 word" where "WHEEL_DELTA = 120"

text \<open>\<open>InterceptionMouseStroke{ }\<close>: every field zero.\<close>

definition InterceptionMouseStroke_zero :: InterceptionMouseStroke where
  "InterceptionMouseStroke_zero =
     \<lparr>ms_state = 0, ms_flags = 0, ms_rolling = 0, ms_x = 0, ms_y = 0, ms_information = 0\<rparr>"

text \<open>\<open>stroke.state & FLAG\<close> used as a condition.\<close>

definition flag_set :: "16 word \<Rightarrow> 16 word \<Rightarrow> bool" where
  "flag_set w flag = (w AND flag \<noteq> 0)"

subsection \<open>Native stroke to canonical event\<close>

definition get_key_event_key :: "InterceptionKeyStroke \<Rightarrow> KeyEvent" where
  "get_key_event_key stroke =
     (let k = ks_code stroke OR (if flag_set (ks_state stroke) INTERCEPTION_KEY_E0 then 0xE000 else 0);
          s = (if flag_set (ks_state stroke) INTERCEPTION_KEY_UP then Up else Down)
      in mk_KeyEvent k s)"

text \<open>The button branches all have the same shape.\<close>

definition button_event :: "Key \<Rightarrow> 16 word \<Rightarrow> 16 word \<Rightarrow> KeyEvent" where
  "button_event k st up_flag =
     \<lparr>ev_key = k, ev_state = (if flag_set st up_flag then Up else Down), ev_value = 0\<rparr>"

definition get_key_event_mouse :: "key_names \<Rightarrow> InterceptionMouseStroke \<Rightarrow> KeyEvent" where
  "get_key_event_mouse kn stroke =
     (let st = ms_state stroke in
      if flag_set st INTERCEPTION_MOUSE_BUTTON_1_DOWN \<or> flag_set st INTERCEPTION_MOUSE_BUTTON_1_UP
        then button_event (ButtonLeft kn) st INTERCEPTION_MOUSE_BUTTON_1_UP
      else if flag_set st INTERCEPTION_MOUSE_BUTTON_2_DOWN \<or> flag_set st INTERCEPTION_MOUSE_BUTTON_2_UP
        then button_event (ButtonRight kn) st INTERCEPTION_MOUSE_BUTTON_2_UP
      else if flag_set st INTERCEPTION_MOUSE_BUTTON_3_DOWN \<or> flag_set st INTERCEPTION_MOUSE_BUTTON_3_UP
        then button_event (ButtonMiddle kn) st INTERCEPTION_MOUSE_BUTTON_3_UP
      else if flag_set st INTERCEPTION_MOUSE_BUTTON_4_DOWN \<or> flag_set st INTERCEPTION_MOUSE_BUTTON_4_UP
        then button_event (ButtonBack kn) st INTERCEPTION_MOUSE_BUTTON_4_UP
      else if flag_set st INTERCEPTION_MOUSE_BUTTON_5_DOWN \<or> flag_set st INTERCEPTION_MOUSE_BUTTON_5_UP
        then button_event (ButtonForward kn) st INTERCEPTION_MOUSE_BUTTON_5_UP
      else if flag_set st INTERCEPTION_MOUSE_WHEEL
        then \<lparr>ev_key = (if sint (ms_rolling stroke) < 0 then WheelDown kn else WheelUp kn),
              ev_state = Up,
              ev_value = word_of_int \<bar>sint (ms_rolling stroke)\<bar>\<rparr>
      else if flag_set st INTERCEPTION_MOUSE_HWHEEL
        then \<lparr>ev_key = (if sint (ms_rolling stroke) < 0 then WheelLeft kn else WheelRight kn),
              ev_state = Up,
              ev_value = word_of_int \<bar>sint (ms_rolling stroke)\<bar>\<rparr>
      else mk_KeyEvent (Key_none kn) Up)"

subsection \<open>Canonical event to native stroke\<close>

definition get_interception_key_stroke :: "KeyEvent \<Rightarrow> InterceptionKeyStroke" where
  "get_interception_key_stroke event =
     (let scan_code = ev_key event;
          st = (if ev_state event = Up then INTERCEPTION_KEY_UP else INTERCEPTION_KEY_DOWN)
      in if scan_code AND 0xE000 \<noteq> 0
         then \<lparr>ks_code = scan_code AND NOT 0xE000, ks_state = st OR INTERCEPTION_KEY_E0,
               ks_information = 0\<rparr>
         else \<lparr>ks_code = scan_code, ks_state = st, ks_information = 0\<rparr>)"

text \<open>
  The wheel value is computed in \<open>int\<close> and stored into the 16-bit \<open>rolling\<close>; the stored
  word is the 16-bit product, which is what negation on a word gives.
\<close>

definition get_interception_mouse_stroke :: "key_names \<Rightarrow> KeyEvent \<Rightarrow> InterceptionMouseStroke" where
  "get_interception_mouse_stroke kn event =
     (let down = (ev_state event = Down);
          button = InterceptionMouseStroke_zero;
          k = ev_key event
      in if k = ButtonLeft kn then
           button\<lparr>ms_state := (if down then INTERCEPTION_MOUSE_BUTTON_1_DOWN
                                else INTERCEPTION_MOUSE_BUTTON_1_UP)\<rparr>
         else if k = ButtonRight kn then
           button\<lparr>ms_state := (if down then INTERCEPTION_MOUSE_BUTTON_2_DOWN
                                else INTERCEPTION_MOUSE_BUTTON_2_UP)\<rparr>
         else if k = ButtonMiddle kn then
           button\<lparr>ms_state := (if down then INTERCEPTION_MOUSE_BUTTON_3_DOWN
                                else INTERCEPTION_MOUSE_BUTTON_3_UP)\<rparr>
         else if k = ButtonBack kn then
           button\<lparr>ms_state := (if down then INTERCEPTION_MOUSE_BUTTON_4_DOWN
                                else INTERCEPTION_MOUSE_BUTTON_4_UP)\<rparr>
         else if k = ButtonForward kn then
           button\<lparr>ms_state := (if down then INTERCEPTION_MOUSE_BUTTON_5_DOWN
                                else INTERCEPTION_MOUSE_BUTTON_5_UP)\<rparr>
         else if k = WheelDown kn \<or> k = WheelUp kn \<or> k = WheelLeft kn \<or> k = WheelRight kn then
           (let vertical = (k = WheelUp kn \<or> k = WheelDown kn);
                negative = (k = WheelDown kn \<or> k = WheelLeft kn);
                v = (if ev_value event \<noteq> 0 then ev_value event else WHEEL_DELTA);
                val = (if negative then - v else v)
            in button\<lparr>ms_state := (if vertical then INTERCEPTION_MOUSE_WHEEL
                                     else INTERCEPTION_MOUSE_HWHEEL),
                       ms_rolling := val\<rparr>)
         else InterceptionMouseStroke_zero)"

subsection \<open>The message word handed to the host\<close>

text \<open>
  \<open>MAKEWPARAM(l, h)\<close> of \<open>windef.h\<close>: the low 16 bits of \<open>l\<close> and, above them, the low
  16 bits of \<open>h\<close>.
\<close>

definition MAKEWPARAM :: "32 word \<Rightarrow> 32 word \<Rightarrow> 32 word" where
  "MAKEWPARAM l h = (l AND 0xFFFF) OR push_bit 16 (h AND 0xFFFF)"

text \<open>
  The first argument of \<open>SendMessageA\<close> in \<open>thread_func\<close>. The operands are promoted to
  \<open>int\<close> before the masks apply. \<open>state_code\<close> is \<open>static_cast<uint16_t>\<close> on a
  \<open>KeyState\<close>: the numbering of the enumerators is fixed by the missing header and is a
  parameter here.
\<close>

definition input_wparam :: "(KeyState \<Rightarrow> 16 word) \<Rightarrow> KeyEvent \<Rightarrow> 32 word" where
  "input_wparam state_code event =
     MAKEWPARAM (ucast (ev_key event))
       ((ucast (state_code (ev_state event)) AND 0x1F) OR
        push_bit 5 (ucast (ev_value event) AND 0x7FF))"

section \<open>Hardware-id lists\<close>

text \<open>
  A \<open>std::wstring\<close> is a list of 16-bit code units (\<open>wchar_t\<close> on Windows). \<open>wstr\<close> writes an
  ASCII literal as such a list; the backslash is the code unit \<open>0x5C\<close>.
\<close>

type_synonym wchar = "16 word"
type_synonym wstring = "wchar list"

definition wstr :: "string \<Rightarrow> wstring" where
  "wstr s = map of_char s"

text \<open>
  The \<open>%x\<close> conversion of the C library's \<open>swscanf_s\<close>: white space is skipped, then an
  optional sign and an optional \<open>0x\<close> prefix, then the longest run of hexadecimal digits, of
  which there must be at least one. The value is stored in a 32-bit integer. The function
  returns the value and the input that is left.
\<close>

definition is_space :: "wchar \<Rightarrow> bool" where
  "is_space c = (c = 0x20 \<or> (0x09 \<le> c \<and> c \<le> 0x0D))"

definition hex_digit :: "wchar \<Rightarrow> nat option" where
  "hex_digit c =
     (if 0x30 \<le> c \<and> c \<le> 0x39 then Some (unat c - 0x30)
      else if 0x41 \<le> c \<and> c \<le> 0x46 then Some (unat c - 0x41 + 10)
      else if 0x61 \<le> c \<and> c \<le> 0x66 then Some (unat c - 0x61 + 10)
      else None)"

fun scan_digits :: "nat \<Rightarrow> wstring \<Rightarrow> nat \<times> wstring" where
  "scan_digits acc [] = (acc, [])"
| "scan_digits acc (c # cs) =
     (case hex_digit c of None \<Rightarrow> (acc, c # cs) | Some d \<Rightarrow> scan_digits (16 * acc + d) cs)"

definition scan_sign :: "wstring \<Rightarrow> bool \<times> wstring" where
  "scan_sign s =
     (case s of [] \<Rightarrow> (False, [])
      | c # cs \<Rightarrow> if c = 0x2D then (True, cs) else if c = 0x2B then (False, cs) else (False, s))"

definition scan_0x :: "wstring \<Rightarrow> wstring" where
  "scan_0x s =
     (case s of a # b # cs \<Rightarrow> if a = 0x30 \<and> (b = 0x78 \<or> b = 0x58) then cs else s
      | _ \<Rightarrow> s)"

definition scan_hex :: "wstring \<Rightarrow> (32 word \<times> wstring) option" where
  "scan_hex s =
     (case scan_sign (dropWhile is_space s) of
        (neg, s1) \<Rightarrow>
          (case scan_0x s1 of
             [] \<Rightarrow> None
           | c # cs \<Rightarrow>
               if hex_digit c = None then None
               else (case scan_digits 0 (c # cs) of
                       (n, rest) \<Rightarrow> Some (if neg then - of_nat n else of_nat n, rest))))"

text \<open>An ordinary character of the format must be the next character of the input.\<close>

fun scan_literal :: "wstring \<Rightarrow> wstring \<Rightarrow> wstring option" where
  "scan_literal [] s = Some s"
| "scan_literal (c # cs) [] = None"
| "scan_literal (c # cs) (d # ds) = (if c = d then scan_literal cs ds else None)"

text \<open>\<open>swscanf_s(id, L"HID\\VID_%x&PID_%x&REV_%x", &vid, &pid, &rev) == 3\<close>\<close>

definition get_vid_pid_rev :: "wstring \<Rightarrow> (32 word \<times> 32 word \<times> 32 word) option" where
  "get_vid_pid_rev ident =
     (case scan_literal (wstr ''HID'' @ 0x5C # wstr ''VID_'') ident of None \<Rightarrow> None
      | Some r1 \<Rightarrow>
     (case scan_hex r1 of None \<Rightarrow> None
      | Some (vid, r2) \<Rightarrow>
     (case scan_literal (wstr ''&PID_'') r2 of None \<Rightarrow> None
      | Some r3 \<Rightarrow>
     (case scan_hex r3 of None \<Rightarrow> None
      | Some (pid, r4) \<Rightarrow>
     (case scan_literal (wstr ''&REV_'') r4 of None \<Rightarrow> None
      | Some r5 \<Rightarrow>
     (case scan_hex r5 of None \<Rightarrow> None
      | Some (revn, r6) \<Rightarrow> Some (vid, pid, revn)))))))"

text \<open>
  \<open>list.find(L'\0', pos)\<close>: the index of the first NUL at or after \<open>pos\<close>, \<open>None\<close> for
  \<open>npos\<close>. The loops continue at \<open>find(...) + 1\<close>; \<open>npos\<close> is the largest value of
  \<open>size_type\<close>, so \<open>npos + 1\<close> is 0.
\<close>

definition find_nul :: "wstring \<Rightarrow> nat \<Rightarrow> nat option" where
  "find_nul s pos =
     (if 0 \<in> set (drop pos s) then Some (pos + length (takeWhile (\<lambda>c. c \<noteq> 0) (drop pos s)))
      else None)"

definition next_entry :: "wstring \<Rightarrow> nat \<Rightarrow> nat" where
  "next_entry s pos = (case find_nul s pos of None \<Rightarrow> 0 | Some i \<Rightarrow> i + 1)"

text \<open>\<open>std::wstring_view(&list[pos])\<close>: the characters from \<open>pos\<close> up to the next NUL.\<close>

definition entry_at :: "wstring \<Rightarrow> nat \<Rightarrow> wstring" where
  "entry_at s pos = takeWhile (\<lambda>c. c \<noteq> 0) (drop pos s)"

definition has_backslash :: "wstring \<Rightarrow> bool" where
  "has_backslash e = (0x5C \<in> set e)"

text \<open>
  The two loops of \<open>match_hardware_ids\<close>. Neither has a bound of its own: a loop that never
  ends has the value \<open>None\<close>.
\<close>

partial_function (option) match_entry ::
  "wstring \<Rightarrow> (32 word \<times> 32 word \<times> 32 word) option \<Rightarrow> wstring \<Rightarrow> nat \<Rightarrow> bool option" where
  "match_entry entry_a vid_pid_rev_a list_b b =
     (if b < length list_b then
        (let entry_b = entry_at list_b b in
         if entry_a = entry_b then Some True
         else if vid_pid_rev_a \<noteq> None \<and> vid_pid_rev_a = get_vid_pid_rev entry_b then Some True
         else match_entry entry_a vid_pid_rev_a list_b (next_entry list_b b))
      else Some False)"

partial_function (option) match_from :: "wstring \<Rightarrow> wstring \<Rightarrow> nat \<Rightarrow> bool option" where
  "match_from list_a list_b a =
     (if a < length list_a then
        (let entry_a = entry_at list_a a;
             vid_pid_rev_a = get_vid_pid_rev entry_a in
         if has_backslash entry_a then
           Option.bind (match_entry entry_a vid_pid_rev_a list_b 0)
             (\<lambda>found. if found then Some True else match_from list_a list_b (next_entry list_a a))
         else match_from list_a list_b (next_entry list_a a))
      else Some False)"

declare match_entry.simps [code] match_from.simps [code]

definition match_hardware_ids :: "wstring \<Rightarrow> wstring \<Rightarrow> bool option" where
  "match_hardware_ids list_a list_b = match_from list_a list_b 0"


section \<open>The capture side (class Interception)\<close>

text \<open>
  An OS device handle and a window handle are pointers, 0 being the null handle; a driver
  device slot is an \<open>int\<close>.
\<close>

type_synonym HANDLE = nat
type_synonym InterceptionDevice = int

text \<open>
  What loading \<open>interception.dll\<close> gives: the module handle of \<open>LoadLibraryA\<close> and the entry
  point \<open>interception_create_context\<close>, \<open>None\<close> when \<open>GetProcAddress\<close> does not find it and
  otherwise the context that calling it returns.
\<close>

record interception_dll =
  dll_module :: nat
  dll_create_context :: "nat option"

text \<open>
  The two identity maps are \<open>std::map\<close>s. The members the claims do not touch (the other
  entry points, the shutdown flag) are left out; \<open>m_thread\<close> is kept as the fact that the
  capture thread has been started.
\<close>

record Interception =
  m_module :: nat
  interception_create_context :: "nat option"
  m_context :: nat
  m_thread :: bool
  m_handle_with_hardware_ids :: "(HANDLE \<times> wstring) list"
  m_device_by_handle :: "HANDLE \<rightharpoonup> InterceptionDevice"
  m_handle_by_device :: "InterceptionDevice \<rightharpoonup> HANDLE"
  m_last_keyboard :: InterceptionDevice
  m_last_mouse :: InterceptionDevice

definition Interception_new :: "interception_dll \<Rightarrow> Interception" where
  "Interception_new dll =
     \<lparr>m_module = dll_module dll,
      interception_create_context = (if dll_module dll \<noteq> 0 then dll_create_context dll else None),
      m_context = 0, m_thread = False, m_handle_with_hardware_ids = [],
      m_device_by_handle = Map.empty, m_handle_by_device = Map.empty,
      m_last_keyboard = 0, m_last_mouse = 0\<rparr>"

text \<open>The two messages, without their line breaks and quotation marks.\<close>

definition msg_driver_missing :: string where
  "msg_driver_missing = ''To use the Interception driver, install it and put the interception.dll in keymapper directory and reboot.''"

definition msg_driver_failed :: string where
  "msg_driver_failed = ''Initializing Interception driver failed. Did you install it and rebooted?''"

text \<open>
  \<open>Interception::initialize\<close> returns its result, the message it wrote through
  \<open>error_message\<close>, if any, and the object.
\<close>

definition Interception_initialize :: "Interception \<Rightarrow> bool \<times> string option \<times> Interception" where
  "Interception_initialize ic =
     (case interception_create_context ic of
        None \<Rightarrow> (False, Some msg_driver_missing, ic)
      | Some ctx \<Rightarrow>
          if m_module ic = 0 then (False, Some msg_driver_missing, ic)
          else (let ic1 = ic\<lparr>m_context := ctx\<rparr> in
                if m_context ic1 = 0 then (False, Some msg_driver_failed, ic1)
                else (True, None, ic1\<lparr>m_thread := True\<rparr>)))"

definition set_device_hardware_ids :: "HANDLE \<Rightarrow> wstring \<Rightarrow> Interception \<Rightarrow> Interception" where
  "set_device_hardware_ids device hardware_ids ic =
     ic\<lparr>m_handle_with_hardware_ids := m_handle_with_hardware_ids ic @ [(device, hardware_ids)]\<rparr>"

fun get_device_handle_by_hardware_id :: "(HANDLE \<times> wstring) list \<Rightarrow> wstring \<Rightarrow> HANDLE option" where
  "get_device_handle_by_hardware_id [] ids = Some 0"
| "get_device_handle_by_hardware_id ((handle, hardware_ids) # rest) ids =
     (case match_hardware_ids hardware_ids ids of
        None \<Rightarrow> None
      | Some True \<Rightarrow> Some handle
      | Some False \<Rightarrow> get_device_handle_by_hardware_id rest ids)"

text \<open>
  \<open>get_hardware_ids\<close> asks the driver; its answer for a slot is the parameter
  \<open>hardware_ids_of\<close>. Reading \<open>m_handle_by_device[device]\<close> enters the slot with a null
  handle when the map does not have it.
\<close>

definition get_device_handle ::
  "(InterceptionDevice \<Rightarrow> wstring) \<Rightarrow> InterceptionDevice \<Rightarrow> Interception \<Rightarrow>
   (HANDLE \<times> Interception) option" where
  "get_device_handle hardware_ids_of device ic =
     (let handle = (case m_handle_by_device ic device of None \<Rightarrow> 0 | Some h \<Rightarrow> h);
          ic1 = ic\<lparr>m_handle_by_device := (m_handle_by_device ic)(device \<mapsto> handle)\<rparr>
      in if handle = 0 then
           (case get_device_handle_by_hardware_id (m_handle_with_hardware_ids ic1)
                   (hardware_ids_of device) of
              None \<Rightarrow> None
            | Some h \<Rightarrow>
                if h \<noteq> 0 then
                  Some (h, ic1\<lparr>m_handle_by_device := (m_handle_by_device ic1)(device \<mapsto> h),
                               m_device_by_handle := (m_device_by_handle ic1)(h \<mapsto> device)\<rparr>)
                else Some (h, ic1))
         else Some (handle, ic1))"

text \<open>
  The loops of \<open>try_set_last_keyboard\<close> and \<open>try_set_last_mouse\<close>: the slots \<open>lo + n\<close> down
  to \<open>lo + 1\<close>, stopping at the first one that resolves.
\<close>

fun last_resolvable ::
  "(InterceptionDevice \<Rightarrow> wstring) \<Rightarrow> nat \<Rightarrow> nat \<Rightarrow> Interception \<Rightarrow>
   (InterceptionDevice option \<times> Interception) option" where
  "last_resolvable hardware_ids_of lo 0 ic = Some (None, ic)"
| "last_resolvable hardware_ids_of lo (Suc n) ic =
     (case get_device_handle hardware_ids_of (int (lo + Suc n)) ic of
        None \<Rightarrow> None
      | Some (h, ic1) \<Rightarrow>
          if h = 0 then last_resolvable hardware_ids_of lo n ic1
          else Some (Some (int (lo + Suc n)), ic1))"

definition INTERCEPTION_MAX_KEYBOARD :: nat where "INTERCEPTION_MAX_KEYBOARD = 10"
definition INTERCEPTION_MAX_MOUSE :: nat where "INTERCEPTION_MAX_MOUSE = 10"

definition try_set_last_keyboard ::
  "(InterceptionDevice \<Rightarrow> wstring) \<Rightarrow> Interception \<Rightarrow> Interception option" where
  "try_set_last_keyboard hardware_ids_of ic =
     (case last_resolvable hardware_ids_of 0 INTERCEPTION_MAX_KEYBOARD ic of
        None \<Rightarrow> None
      | Some (None, ic1) \<Rightarrow> Some ic1
      | Some (Some keyboard, ic1) \<Rightarrow> Some (ic1\<lparr>m_last_keyboard := keyboard\<rparr>))"

definition try_set_last_mouse ::
  "(InterceptionDevice \<Rightarrow> wstring) \<Rightarrow> Interception \<Rightarrow> Interception option" where
  "try_set_last_mouse hardware_ids_of ic =
     (case last_resolvable hardware_ids_of INTERCEPTION_MAX_KEYBOARD INTERCEPTION_MAX_MOUSE ic of
        None \<Rightarrow> None
      | Some (None, ic1) \<Rightarrow> Some ic1
      | Some (Some mouse, ic1) \<Rightarrow> Some (ic1\<lparr>m_last_mouse := mouse\<rparr>))"

text \<open>\<open>interception_is_keyboard\<close> of the driver library: the slots 1 to 10.\<close>

definition interception_is_keyboard :: "InterceptionDevice \<Rightarrow> bool" where
  "interception_is_keyboard device = (1 \<le> device \<and> device \<le> int INTERCEPTION_MAX_KEYBOARD)"

subsection \<open>The capture thread\<close>

text \<open>
  A received stroke is a raw buffer of type \<open>'s\<close>, which \<open>thread_func\<close> reads through one of
  two casts. The driver side is a parameter: the hardware ids it reports for a slot and the
  two views of a buffer.
\<close>

record 's driver =
  hardware_ids_of :: "InterceptionDevice \<Rightarrow> wstring"
  as_key_stroke :: "'s \<Rightarrow> InterceptionKeyStroke"
  as_mouse_stroke :: "'s \<Rightarrow> InterceptionMouseStroke"

text \<open>
  What the thread does to the outside is recorded beside the object: \<open>messages\<close> are the
  calls of \<open>SendMessageA\<close> (the message word and the device handle), \<open>sent\<close> the calls of
  \<open>interception_send\<close> (the slot and the buffer), both oldest first.
\<close>

record 's capture =
  interception :: Interception
  messages :: "(32 word \<times> HANDLE) list"
  sent :: "(InterceptionDevice \<times> 's) list"

text \<open>
  The body of the loop of \<open>thread_func\<close> for one received stroke. \<open>host w h\<close> tells whether
  \<open>SendMessageA\<close> returns 1 for the message word \<open>w\<close> and the handle \<open>h\<close>.
\<close>

definition thread_func_stroke ::
  "key_names \<Rightarrow> (KeyState \<Rightarrow> 16 word) \<Rightarrow> 's driver \<Rightarrow> (32 word \<Rightarrow> HANDLE \<Rightarrow> bool) \<Rightarrow>
   InterceptionDevice \<Rightarrow> 's \<Rightarrow> 's capture \<Rightarrow> 's capture option" where
  "thread_func_stroke kn state_code drv host device stroke c =
     (let is_keyboard = interception_is_keyboard device;
          event = (if is_keyboard then get_key_event_key (as_key_stroke drv stroke)
                   else get_key_event_mouse kn (as_mouse_stroke drv stroke))
      in case get_device_handle (hardware_ids_of drv) device (interception c) of
           None \<Rightarrow> None
         | Some (device_handle, ic1) \<Rightarrow>
             if device_handle \<noteq> 0 then
               (let ic2 = (if is_keyboard then ic1\<lparr>m_last_keyboard := device\<rparr>
                           else ic1\<lparr>m_last_mouse := device\<rparr>);
                    w = input_wparam state_code event;
                    c2 = c\<lparr>interception := ic2, messages := messages c @ [(w, device_handle)]\<rparr>
                in if host w device_handle then Some c2
                   else Some (c2\<lparr>sent := sent c2 @ [(device, stroke)]\<rparr>))
             else Some (c\<lparr>interception := ic1, sent := sent c @ [(device, stroke)]\<rparr>))"

text \<open>The loop over the strokes that arrive before the shutdown flag is seen.\<close>

fun thread_func ::
  "key_names \<Rightarrow> (KeyState \<Rightarrow> 16 word) \<Rightarrow> 's driver \<Rightarrow> (32 word \<Rightarrow> HANDLE \<Rightarrow> bool) \<Rightarrow>
   (InterceptionDevice \<times> 's) list \<Rightarrow> 's capture \<Rightarrow> 's capture option" where
  "thread_func kn state_code drv host [] c = Some c"
| "thread_func kn state_code drv host ((device, stroke) # rest) c =
     (case thread_func_stroke kn state_code drv host device stroke c of
        None \<Rightarrow> None
      | Some c1 \<Rightarrow> thread_func kn state_code drv host rest c1)"

section \<open>The device roster (class Devices)\<close>

record DeviceDesc =
  desc_name :: string
  desc_id :: string

text \<open>
  \<open>GrabDeviceFilter\<close> and \<open>evaluate_grab_filters\<close> are declared outside the sources: a filter
  is a value of the type parameter \<open>'f\<close> and the evaluator is a parameter of the functions
  that call it.
\<close>

record 'f Devices =
  m_window :: nat
  m_error_message :: string
  m_interception :: "Interception option"
  m_device_handles :: "HANDLE list"
  m_device_descs :: "DeviceDesc list"
  m_ignored_device_handles :: "HANDLE list"
  m_ignored_device_descs :: "DeviceDesc list"
  m_grab_filters :: "'f list"

definition Devices_new :: "'f Devices" where
  "Devices_new =
     \<lparr>m_window = 0, m_error_message = [], m_interception = None,
      m_device_handles = [], m_device_descs = [],
      m_ignored_device_handles = [], m_ignored_device_descs = [], m_grab_filters = []\<rparr>"

definition initialized :: "'f Devices \<Rightarrow> bool" where
  "initialized st = (m_interception st \<noteq> None)"

text \<open>
  What the system answers during \<open>initialize\<close>: the driver library as it loads at that
  moment, and whether \<open>RegisterRawInputDevices\<close> succeeds.
\<close>

record setup_env =
  driver_dll :: interception_dll
  register_raw_input_devices :: bool

definition initialize :: "setup_env \<Rightarrow> nat \<Rightarrow> 'f Devices \<Rightarrow> bool \<times> 'f Devices" where
  "initialize env window st =
     (if m_window st \<noteq> 0 then (initialized st, st)
      else
        (let st1 = st\<lparr>m_window := window\<rparr> in
         case Interception_initialize (Interception_new (driver_dll env)) of
           (ok, msg, ic) \<Rightarrow>
             (let st2 = (case msg of None \<Rightarrow> st1 | Some m \<Rightarrow> st1\<lparr>m_error_message := m\<rparr>) in
              if \<not> ok then (False, st2)
              else if \<not> register_raw_input_devices env then (False, st2)
              else (True, st2\<lparr>m_interception := Some ic\<rparr>))))"

definition shutdown :: "'f Devices \<Rightarrow> 'f Devices" where
  "shutdown st = st\<lparr>m_interception := None, m_window := 0\<rparr>"

subsection \<open>Partitioning the roster\<close>

definition reset_device_filters :: "'f Devices \<Rightarrow> 'f Devices" where
  "reset_device_filters st =
     st\<lparr>m_device_handles := m_device_handles st @ m_ignored_device_handles st,
        m_ignored_device_handles := [],
        m_device_descs := m_device_descs st @ m_ignored_device_descs st,
        m_ignored_device_descs := []\<rparr>"

text \<open>\<open>v.erase(v.begin() + i)\<close>\<close>

definition erase_at :: "nat \<Rightarrow> 'a list \<Rightarrow> 'a list" where
  "erase_at i xs = take i xs @ drop (Suc i) xs"

text \<open>
  The loop of \<open>apply_device_filters\<close>, from index \<open>i\<close>. It is bounded by the descriptors and
  indexes the handles with the same \<open>i\<close>; reading or erasing past the end of the handles is
  undefined behaviour, which is the result \<open>None\<close>.
\<close>

function apply_device_filters_from ::
  "('f list \<Rightarrow> string \<Rightarrow> string \<Rightarrow> bool \<Rightarrow> bool) \<Rightarrow> nat \<Rightarrow> 'f Devices \<Rightarrow> 'f Devices option" where
  "apply_device_filters_from evaluate_grab_filters i st =
     (if i < length (m_device_descs st) then
        (if i < length (m_device_handles st) then
           (let handle = m_device_handles st ! i;
                desc = m_device_descs st ! i;
                grab = evaluate_grab_filters (m_grab_filters st) (desc_name desc) (desc_id desc) True
            in if \<not> grab then
                 apply_device_filters_from evaluate_grab_filters i
                   (st\<lparr>m_ignored_device_handles := m_ignored_device_handles st @ [handle],
                       m_ignored_device_descs := m_ignored_device_descs st @ [desc],
                       m_device_handles := erase_at i (m_device_handles st),
                       m_device_descs := erase_at i (m_device_descs st)\<rparr>)
               else apply_device_filters_from evaluate_grab_filters (Suc i) st)
         else None)
      else Some st)"
  by pat_completeness auto
termination
  by (relation "measure (\<lambda>(ev, i, st). length (m_device_descs st) - i)")
     (auto simp: erase_at_def)

definition apply_device_filters ::
  "('f list \<Rightarrow> string \<Rightarrow> string \<Rightarrow> bool \<Rightarrow> bool) \<Rightarrow> 'f Devices \<Rightarrow> 'f Devices option" where
  "apply_device_filters evaluate_grab_filters st =
     apply_device_filters_from evaluate_grab_filters 0 st"

definition set_grab_filters ::
  "('f list \<Rightarrow> string \<Rightarrow> string \<Rightarrow> bool \<Rightarrow> bool) \<Rightarrow> 'f list \<Rightarrow> 'f Devices \<Rightarrow> 'f Devices option" where
  "set_grab_filters evaluate_grab_filters filters st =
     apply_device_filters evaluate_grab_filters
       ((reset_device_filters st)\<lparr>m_grab_filters := filters\<rparr>)"

text \<open>\<open>std::find\<close> and \<open>std::distance\<close> in \<open>get_device_index\<close>.\<close>

fun index_of :: "'a \<Rightarrow> 'a list \<Rightarrow> nat option" where
  "index_of x [] = None"
| "index_of x (y # ys) = (if x = y then Some 0 else map_option Suc (index_of x ys))"

definition get_device_index :: "'f Devices \<Rightarrow> HANDLE \<Rightarrow> int" where
  "get_device_index st device =
     (if device = 0 then -1
      else (case index_of device (m_device_handles st) of None \<Rightarrow> -1 | Some i \<Rightarrow> int i))"

definition on_device_removed ::
  "('f list \<Rightarrow> string \<Rightarrow> string \<Rightarrow> bool \<Rightarrow> bool) \<Rightarrow> HANDLE \<Rightarrow> 'f Devices \<Rightarrow> 'f Devices option" where
  "on_device_removed evaluate_grab_filters device st =
     (let st1 = reset_device_filters st;
          index = get_device_index st1 device
      in if index \<ge> 0 then
           (if nat index < length (m_device_descs st1) then
              apply_device_filters evaluate_grab_filters
                (st1\<lparr>m_device_handles := erase_at (nat index) (m_device_handles st1),
                     m_device_descs := erase_at (nat index) (m_device_descs st1)\<rparr>)
            else None)
         else apply_device_filters evaluate_grab_filters st1)"

text \<open>
  What the system answers to the queries of \<open>on_device_attached\<close>: whether the device info
  is read in full, the interface name (\<open>None\<close> when it is not read in full), the instance id,
  whether the device node is located, the name and the hardware ids of the node, and the
  product string that \<open>HidD_GetProductString\<close> wrote, if the file opened and the call
  succeeded.
\<close>

record attach_query =
  q_device_info :: bool
  q_interface :: "wstring option"
  q_instance_id :: wstring
  q_locate_node :: bool
  q_device_name :: wstring
  q_hardware_ids :: wstring
  q_product :: "wstring option"

text \<open>
  \<open>wide_to_utf8\<close> is declared outside the sources and is a parameter. The part behind
  \<open>if (m_interception)\<close> resolves device slots and inherits \<open>None\<close> from the hardware-id
  matcher.
\<close>

definition on_device_attached ::
  "('f list \<Rightarrow> string \<Rightarrow> string \<Rightarrow> bool \<Rightarrow> bool) \<Rightarrow> (wstring \<Rightarrow> string) \<Rightarrow>
   (InterceptionDevice \<Rightarrow> wstring) \<Rightarrow> attach_query \<Rightarrow> HANDLE \<Rightarrow> 'f Devices \<Rightarrow> 'f Devices option" where
  "on_device_attached evaluate_grab_filters wide_to_utf8 hw_ids_of q device st =
     (if \<not> q_device_info q then Some st
      else if q_interface q = None then Some st
      else if \<not> q_locate_node q then Some st
      else
        (let device_name = (case q_product q of
                              Some (c # cs) \<Rightarrow> c # cs
                            | _ \<Rightarrow> q_device_name q);
             st1 = reset_device_filters st;
             st2 = st1\<lparr>m_device_handles := m_device_handles st1 @ [device],
                       m_device_descs := m_device_descs st1 @
                         [\<lparr>desc_name = wide_to_utf8 device_name,
                           desc_id = wide_to_utf8 (q_instance_id q)\<rparr>]\<rparr>
         in case apply_device_filters evaluate_grab_filters st2 of
              None \<Rightarrow> None
            | Some st3 \<Rightarrow>
                (case m_interception st3 of
                   None \<Rightarrow> Some st3
                 | Some ic \<Rightarrow>
                     (case try_set_last_keyboard hw_ids_of
                             (set_device_hardware_ids device (q_hardware_ids q) ic) of
                        None \<Rightarrow> None
                      | Some ic1 \<Rightarrow>
                          (case try_set_last_mouse hw_ids_of ic1 of
                             None \<Rightarrow> None
                           | Some ic2 \<Rightarrow> Some (st3\<lparr>m_interception := Some ic2\<rparr>))))))"

section \<open>Assumptions on the key table and sample tables\<close>

text \<open>
  \<open>send_key_event\<close> tests \<open>Key::F1 <= key <= Key::F12\<close>: it takes the function keys to
  be numbered in ascending order.
\<close>

definition fn_keys_ascending :: "key_names \<Rightarrow> bool" where
  "fn_keys_ascending kn =
     sorted_wrt (<) [F1 kn, F2 kn, F3 kn, F4 kn, F5 kn, F6 kn, F7 kn, F8 kn, F9 kn, F10 kn,
                     F11 kn, F12 kn]"

text \<open>
  A sample key table for concrete evaluation: the function keys carry their HID usages, the
  mouse keys sit at the top of the key space.
\<close>

definition hid_key_names :: key_names where
  "hid_key_names =
     \<lparr>Key_none = 0, ButtonLeft = 0xF000, ButtonRight = 0xF001, ButtonMiddle = 0xF002,
      ButtonBack = 0xF003, ButtonForward = 0xF004, WheelUp = 0xF005, WheelDown = 0xF006,
      WheelLeft = 0xF007, WheelRight = 0xF008,
      F1 = 0x3A, F2 = 0x3B, F3 = 0x3C, F4 = 0x3D, F5 = 0x3E, F6 = 0x3F, F7 = 0x40, F8 = 0x41,
      F9 = 0x42, F10 = 0x43, F11 = 0x44, F12 = 0x45\<rparr>"

text \<open>
  The labels of the \<open>switch\<close> in \<open>get_interception_mouse_stroke\<close> are the nine mouse keys;
  as case labels they are pairwise distinct.
\<close>

definition mouse_keys_distinct :: "key_names \<Rightarrow> bool" where
  "mouse_keys_distinct kn =
     distinct [ButtonLeft kn, ButtonRight kn, ButtonMiddle kn, ButtonBack kn, ButtonForward kn,
               WheelDown kn, WheelUp kn, WheelLeft kn, WheelRight kn]"

text \<open>The magnitude that \<open>get_interception_mouse_stroke\<close> sends for a wheel value.\<close>

definition wheel_rolling :: "16 word \<Rightarrow> 16 word" where
  "wheel_rolling v = (if v \<noteq> 0 then v else WHEEL_DELTA)"

text \<open>A sample numbering of \<open>KeyState\<close>, a sample driver and a sample capture state.\<close>

definition sample_state_code :: "KeyState \<Rightarrow> 16 word" where
  "sample_state_code s = (case s of Up \<Rightarrow> 0 | Down \<Rightarrow> 1 | OutputOnRelease \<Rightarrow> 5)"

definition sample_driver :: "InterceptionMouseStroke driver" where
  "sample_driver =
     \<lparr>hardware_ids_of = (\<lambda>device. []),
      as_key_stroke = (\<lambda>s. \<lparr>ks_code = ms_state s, ks_state = ms_flags s, ks_information = 0\<rparr>),
      as_mouse_stroke = (\<lambda>s. s)\<rparr>"

definition sample_capture :: "InterceptionMouseStroke capture" where
  "sample_capture =
     \<lparr>interception = (Interception_new \<lparr>dll_module = 1, dll_create_context = Some 1\<rparr>)
        \<lparr>m_handle_by_device := [11 \<mapsto> 7]\<rparr>,
      messages = [], sent = []\<rparr>"

definition wheel_stroke :: "16 word \<Rightarrow> InterceptionMouseStroke" where
  "wheel_stroke r =
     InterceptionMouseStroke_zero\<lparr>ms_state := INTERCEPTION_MOUSE_WHEEL, ms_rolling := r\<rparr>"

text \<open>
  The conditions under which the set-up inside \<open>initialize\<close> goes through, and two sample
  environments: one without the driver library, one in which everything works.
\<close>

definition setup_succeeds :: "setup_env \<Rightarrow> bool" where
  "setup_succeeds env =
     (dll_module (driver_dll env) \<noteq> 0 \<and>
      (case dll_create_context (driver_dll env) of None \<Rightarrow> False | Some ctx \<Rightarrow> ctx \<noteq> 0) \<and>
      register_raw_input_devices env)"

definition missing_driver_env :: setup_env where
  "missing_driver_env =
     \<lparr>driver_dll = \<lparr>dll_module = 0, dll_create_context = None\<rparr>,
      register_raw_input_devices = True\<rparr>"

definition working_env :: setup_env where
  "working_env =
     \<lparr>driver_dll = \<lparr>dll_module = 1, dll_create_context = Some 1\<rparr>,
      register_raw_input_devices = True\<rparr>"

text \<open>
  Sample hardware ids: \<open>HID\VID_1&PID_2&REV_3\<close>, the same with the suffix \<open>\MI_00\<close>, and
  an id of another device; a driver that reports the latter for every slot, and a capture
  state that knows one device, with the first id.
\<close>

definition vid_1_pid_2_rev_3 :: wstring where
  "vid_1_pid_2_rev_3 = wstr ''HID'' @ 0x5C # wstr ''VID_1&PID_2&REV_3''"

definition vid_1_pid_2_rev_3_mi_00 :: wstring where
  "vid_1_pid_2_rev_3_mi_00 = vid_1_pid_2_rev_3 @ 0x5C # wstr ''MI_00''"

definition acpi_keyboard_id :: wstring where
  "acpi_keyboard_id = wstr ''ACPI'' @ 0x5C # wstr ''VEN_PNP&DEV_0303''"

definition unmatched_driver :: "InterceptionMouseStroke driver" where
  "unmatched_driver = sample_driver\<lparr>hardware_ids_of := (\<lambda>device. acpi_keyboard_id @ [0])\<rparr>"

definition unmatched_capture :: "InterceptionMouseStroke capture" where
  "unmatched_capture =
     \<lparr>interception = (Interception_new \<lparr>dll_module = 1, dll_create_context = Some 1\<rparr>)
        \<lparr>m_handle_with_hardware_ids := [(7, vid_1_pid_2_rev_3 @ [0])], m_last_mouse := 12\<rparr>,
      messages = [], sent = []\<rparr>"

text \<open>
  A hardware-id list in the form of a \<open>REG_MULTI_SZ\<close> value: every entry ends with a NUL,
  so the list is empty or its last character is NUL.
\<close>

definition terminated :: "wstring \<Rightarrow> bool" where
  "terminated s = (s = [] \<or> last s = 0)"

text \<open>
  For the proofs: the positions at which an entry begins, the entries that begin at or after
  a position, the test that the inner loop makes on a pair of entries, and the test that the
  two loops together make on it.
\<close>

definition entry_start :: "wstring \<Rightarrow> nat \<Rightarrow> bool" where
  "entry_start s p = (p = 0 \<or> s ! (p - 1) = 0)"

definition entries_from :: "wstring \<Rightarrow> nat \<Rightarrow> wstring set" where
  "entries_from s b = {entry_at s p | p. b \<le> p \<and> p < length s \<and> entry_start s p}"

definition entry_hit :: "wstring \<Rightarrow> (32 word \<times> 32 word \<times> 32 word) option \<Rightarrow> wstring \<Rightarrow> bool" where
  "entry_hit entry_a vid_pid_rev_a entry_b =
     (entry_a = entry_b \<or> (vid_pid_rev_a \<noteq> None \<and> vid_pid_rev_a = get_vid_pid_rev entry_b))"

definition entries_match :: "wstring \<Rightarrow> wstring \<Rightarrow> bool" where
  "entries_match entry_a entry_b =
     (has_backslash entry_a \<and> entry_hit entry_a (get_vid_pid_rev entry_a) entry_b)"


text \<open>Two sample lists: one entry without its NUL, and two entries with theirs.\<close>

definition unterminated_id :: wstring where
  "unterminated_id = wstr ''A'' @ 0x5C # wstr ''B''"

definition two_ids :: wstring where
  "two_ids = wstr ''C'' @ 0x5C # wstr ''D'' @ 0 # wstr ''A'' @ 0x5C # wstr ''B'' @ [0]"

text \<open>
  For the handshake: the signal that makes the state Connected, the signals that make it
  Disconnected, the signals handled before the read number \<open>n\<close> of \<open>m_state\<close>, and the
  state that this read finds in a new object.
\<close>

definition ready_signal :: signal where
  "ready_signal = sig_virtual_hid_keyboard_ready True"

fun terminal :: "signal \<Rightarrow> bool" where
  "terminal sig_connect_failed = True"
| "terminal sig_closed = True"
| "terminal sig_error_occurred = True"
| "terminal (sig_driver_version_mismatched b) = b"
| "terminal _ = False"

definition seen :: "(nat \<Rightarrow> signal list) \<Rightarrow> nat \<Rightarrow> signal list" where
  "seen env n = concat (map env [0..<Suc n])"

definition state_at :: "(nat \<Rightarrow> signal list) \<Rightarrow> nat \<Rightarrow> State" where
  "state_at env n = deliver initializing (seen env n)"

text \<open>
  Sample runs of the service: ready and then closed during the first sleep; ready during the
  third sleep; a failed connect during the second sleep.
\<close>

definition ready_then_closed :: "nat \<Rightarrow> signal list" where
  "ready_then_closed k = (if k = 1 then [sig_connected, ready_signal, sig_closed] else [])"

definition ready_in_third_sleep :: "nat \<Rightarrow> signal list" where
  "ready_in_third_sleep k =
     (if k = 0 then [sig_connected] else if k = 3 then [sig_warning_reported, ready_signal] else [])"

definition connect_fails :: "nat \<Rightarrow> signal list" where
  "connect_fails k = (if k = 2 then [sig_connect_failed, ready_signal] else [])"

text \<open>
  For the roster: the handles and their descriptors are kept in parallel vectors, so a device
  of the roster is a pair of a handle and a descriptor. \<open>captured\<close> and \<open>ignored\<close> are the two
  partitions, \<open>known\<close> is every device of the roster, \<open>grabbed\<close> the verdict of the filter
  evaluator on a device, and \<open>remove_device\<close> what \<open>on_device_removed\<close> takes away: the first
  device with the handle, unless the handle is null.
\<close>

definition roster_wf :: "'f Devices \<Rightarrow> bool" where
  "roster_wf st =
     (length (m_device_handles st) = length (m_device_descs st) \<and>
      length (m_ignored_device_handles st) = length (m_ignored_device_descs st))"

definition captured :: "'f Devices \<Rightarrow> (HANDLE \<times> DeviceDesc) list" where
  "captured st = zip (m_device_handles st) (m_device_descs st)"

definition ignored :: "'f Devices \<Rightarrow> (HANDLE \<times> DeviceDesc) list" where
  "ignored st = zip (m_ignored_device_handles st) (m_ignored_device_descs st)"

definition known :: "'f Devices \<Rightarrow> (HANDLE \<times> DeviceDesc) list" where
  "known st = captured st @ ignored st"

definition grabbed ::
  "('f list \<Rightarrow> string \<Rightarrow> string \<Rightarrow> bool \<Rightarrow> bool) \<Rightarrow> 'f list \<Rightarrow> HANDLE \<times> DeviceDesc \<Rightarrow> bool" where
  "grabbed evaluate_grab_filters filters e =
     evaluate_grab_filters filters (desc_name (snd e)) (desc_id (snd e)) True"

definition remove_device :: "HANDLE \<Rightarrow> (HANDLE \<times> DeviceDesc) list \<Rightarrow> (HANDLE \<times> DeviceDesc) list" where
  "remove_device device es =
     (if device = 0 then es
      else (case index_of device (map fst es) of None \<Rightarrow> es | Some i \<Rightarrow> erase_at i es))"


text \<open>
  \<open>partitions ev devices st\<close>: the roster of \<open>st\<close> holds exactly \<open>devices\<close>, those that its
  filters grab in the captured partition and the others in the ignored one, each in the
  order of \<open>devices\<close>. \<open>attach_resolves\<close> tells whether the queries of
  \<open>on_device_attached\<close> succeed, \<open>attach_desc\<close> is the descriptor it then builds.
\<close>

definition partitions ::
  "('f list \<Rightarrow> string \<Rightarrow> string \<Rightarrow> bool \<Rightarrow> bool) \<Rightarrow> (HANDLE \<times> DeviceDesc) list \<Rightarrow> 'f Devices \<Rightarrow> bool" where
  "partitions ev devices st =
     (roster_wf st \<and>
      captured st = filter (grabbed ev (m_grab_filters st)) devices \<and>
      ignored st = filter (\<lambda>e. \<not> grabbed ev (m_grab_filters st) e) devices)"

definition attach_resolves :: "attach_query \<Rightarrow> bool" where
  "attach_resolves q = (q_device_info q \<and> q_interface q \<noteq> None \<and> q_locate_node q)"

definition attach_desc :: "(wstring \<Rightarrow> string) \<Rightarrow> attach_query \<Rightarrow> DeviceDesc" where
  "attach_desc wide_to_utf8 q =
     \<lparr>desc_name = wide_to_utf8 (case q_product q of Some (c # cs) \<Rightarrow> c # cs | _ \<Rightarrow> q_device_name q),
      desc_id = wide_to_utf8 (q_instance_id q)\<rparr>"


text \<open>
  A sample evaluator (a filter is a device name to grab), a sample roster of two devices and
  a sample answer to the queries of an attach.
\<close>

definition sample_evaluate :: "string list \<Rightarrow> string \<Rightarrow> string \<Rightarrow> bool \<Rightarrow> bool" where
  "sample_evaluate filters name ident default_grab = (name \<in> set filters)"

definition sample_roster :: "string Devices" where
  "sample_roster =
     Devices_new\<lparr>m_device_handles := [1, 2],
                 m_device_descs := [\<lparr>desc_name = ''keyboard'', desc_id = ''A''\<rparr>,
                                    \<lparr>desc_name = ''tablet'', desc_id = ''B''\<rparr>]\<rparr>"

definition sample_query :: attach_query where
  "sample_query =
     \<lparr>q_device_info = True, q_interface = Some (wstr ''if''), q_instance_id = wstr ''C'',
      q_locate_node = True, q_device_name = wstr ''HID device'', q_hardware_ids = [],
      q_product = Some (wstr ''pad'')\<rparr>"

definition sample_utf8 :: "wstring \<Rightarrow> string" where
  "sample_utf8 w = map (\<lambda>c. char_of (unat c)) w"

text \<open>
  The condition under which the hardware-id matcher returns on every list that a capture
  object can hand to it: the recorded lists and the lists that the driver reports are
  NUL-terminated. A sample roster with a capture object, and a sample answer to the queries
  of an attach that carries a hardware-id list.
\<close>

definition hardware_ids_terminated :: "(InterceptionDevice \<Rightarrow> wstring) \<Rightarrow> Interception \<Rightarrow> bool" where
  "hardware_ids_terminated hw ic =
     ((\<forall>(handle, hardware_ids) \<in> set (m_handle_with_hardware_ids ic). terminated hardware_ids) \<and>
      (\<forall>device. terminated (hw device)))"


definition sample_captured_roster :: "string Devices" where
  "sample_captured_roster = sample_roster\<lparr>m_interception := Some (interception unmatched_capture)\<rparr>"

definition sample_attach :: attach_query where
  "sample_attach = sample_query\<lparr>q_hardware_ids := vid_1_pid_2_rev_3_mi_00 @ [0]\<rparr>"

section \<open>Properties\<close>

subsection \<open>The virtual output device\<close>

text \<open>
  C5. For every triple \<open>(page, usage, value)\<close>: when the page is the keyboard page and the
  usage lies outside the range from \<open>kHIDUsage_KeyboardA\<close> to \<open>kHIDUsage_KeyboardRightGUI\<close>,
  \<open>send_event\<close> returns false and leaves the object as it was; when the page is \<open>0xFF\<close> it
  sets \<open>m_fn_key_hold\<close> to \<open>value != 0\<close>, changes nothing else and returns true; and it
  never posts a report.
\<close>

theorem send_event_validation:
  "(page = kHIDPage_KeyboardOrKeypad \<and>
      (usage < kHIDUsage_KeyboardA \<or> usage > kHIDUsage_KeyboardRightGUI) \<longrightarrow>
      send_event page usage val d = (False, d)) \<and>
   (page = 0xFF \<longrightarrow> send_event page usage val d = (True, d\<lparr>m_fn_key_hold := (val \<noteq> 0)\<rparr>)) \<and>
   posted (snd (send_event page usage val d)) = posted d"
  by (simp add: send_event_def kHIDPage_KeyboardOrKeypad_def)

theorem send_event_validation_witness:
  "send_event 0x07 0x03 1 VirtualDeviceImpl_new = (False, VirtualDeviceImpl_new) \<and>
   send_event 0x07 0xE8 1 VirtualDeviceImpl_new = (False, VirtualDeviceImpl_new) \<and>
   send_event 0xFF 0 1 VirtualDeviceImpl_new =
     (True, VirtualDeviceImpl_new\<lparr>m_fn_key_hold := True\<rparr>) \<and>
   send_event 0xFF 0 0 (VirtualDeviceImpl_new\<lparr>m_fn_key_hold := True\<rparr>) =
     (True, VirtualDeviceImpl_new)"
  using send_event_validation [of "0x07" "0x03" 1 VirtualDeviceImpl_new]
        send_event_validation [of "0x07" "0xE8" 1 VirtualDeviceImpl_new]
        send_event_validation [of "0xFF" 0 1 VirtualDeviceImpl_new]
        send_event_validation [of "0xFF" 0 0 "VirtualDeviceImpl_new\<lparr>m_fn_key_hold := True\<rparr>"]
  by (simp add: kHIDPage_KeyboardOrKeypad_def kHIDUsage_KeyboardA_def
        kHIDUsage_KeyboardRightGUI_def VirtualDeviceImpl_new_def)

text \<open>The media branch of \<open>send_key_event\<close>.\<close>

lemma send_key_event_consumer:
  assumes "m_state d = connected" and "\<not> m_fn_key_hold d" and "ev_key e \<noteq> F6 kn"
    and "F1 kn \<le> ev_key e" and "ev_key e \<le> F12 kn"
  shows "send_key_event kn e d =
    (True, d\<lparr>m_consumer := update_keys (ev_state e) (fn_key_usage kn (ev_key e)) (m_consumer d),
              posted := posted d @
                [consumer_input (update_keys (ev_state e) (fn_key_usage kn (ev_key e)) (m_consumer d))]\<rparr>)"
  using assms by (simp add: send_key_event_def Let_def)

lemma fn_keys_ascending_F1_F2:
  assumes "fn_keys_ascending kn"
  shows "F1 kn \<noteq> F6 kn" and "F2 kn \<noteq> F6 kn" and "F1 kn \<le> F12 kn" and "F2 kn \<le> F12 kn"
    and "F1 kn \<le> F2 kn" and "F2 kn \<noteq> F1 kn"
proof -
  from assms have lt: "F1 kn < F6 kn" "F2 kn < F6 kn" "F1 kn < F12 kn" "F2 kn < F12 kn"
    "F1 kn < F2 kn"
    unfolding fn_keys_ascending_def by simp_all
  from lt(1) show "F1 kn \<noteq> F6 kn" by simp
  from lt(2) show "F2 kn \<noteq> F6 kn" by simp
  from lt(3) show "F1 kn \<le> F12 kn" by simp
  from lt(4) show "F2 kn \<le> F12 kn" by simp
  from lt(5) show "F1 kn \<le> F2 kn" by simp
  from lt(5) show "F2 kn \<noteq> F1 kn" by simp
qed

text \<open>
  C8. With the state Connected, the secondary layer inactive and no consumer key held,
  sending Down(F1), Down(F2) and Up(F1) returns true three times and posts exactly three
  reports, all consumer-control reports, whose key sets are \<open>{DisplayBrightnessDecrement}\<close>,
  \<open>{DisplayBrightnessDecrement, DisplayBrightnessIncrement}\<close> and
  \<open>{DisplayBrightnessIncrement}\<close>.
\<close>

theorem f1_f2_reports:
  assumes asc: "fn_keys_ascending kn"
    and d: "m_state d = connected" "\<not> m_fn_key_hold d" "m_consumer d = {}"
    and s1: "send_key_event kn \<lparr>ev_key = F1 kn, ev_state = Down, ev_value = v1\<rparr> d = (r1, d1)"
    and s2: "send_key_event kn \<lparr>ev_key = F2 kn, ev_state = Down, ev_value = v2\<rparr> d1 = (r2, d2)"
    and s3: "send_key_event kn \<lparr>ev_key = F1 kn, ev_state = Up, ev_value = v3\<rparr> d2 = (r3, d3)"
  shows "r1 \<and> r2 \<and> r3 \<and>
         posted d3 = posted d @
           [consumer_input {kHIDUsage_Csmr_DisplayBrightnessDecrement},
            consumer_input {kHIDUsage_Csmr_DisplayBrightnessDecrement,
                            kHIDUsage_Csmr_DisplayBrightnessIncrement},
            consumer_input {kHIDUsage_Csmr_DisplayBrightnessIncrement}]"
proof -
  note k = fn_keys_ascending_F1_F2 [OF asc]
  have u1: "fn_key_usage kn (F1 kn) = kHIDUsage_Csmr_DisplayBrightnessDecrement"
    by (simp add: fn_key_usage_def)
  have u2: "fn_key_usage kn (F2 kn) = kHIDUsage_Csmr_DisplayBrightnessIncrement"
    using k(6) by (simp add: fn_key_usage_def)
  have ne: "kHIDUsage_Csmr_DisplayBrightnessIncrement \<noteq> kHIDUsage_Csmr_DisplayBrightnessDecrement"
    by (simp add: kHIDUsage_Csmr_DisplayBrightnessIncrement_def
        kHIDUsage_Csmr_DisplayBrightnessDecrement_def)
  have 1: "r1 \<and> d1 = d\<lparr>m_consumer := {kHIDUsage_Csmr_DisplayBrightnessDecrement},
      posted := posted d @ [consumer_input {kHIDUsage_Csmr_DisplayBrightnessDecrement}]\<rparr>"
    using s1 send_key_event_consumer [OF d(1,2), of "\<lparr>ev_key = F1 kn, ev_state = Down, ev_value = v1\<rparr>" kn]
      k d(3) by (simp add: u1 update_keys_def)
  then have d1: "m_state d1 = connected" "\<not> m_fn_key_hold d1"
    "m_consumer d1 = {kHIDUsage_Csmr_DisplayBrightnessDecrement}"
    using d by simp_all
  have 2: "r2 \<and> d2 = d1\<lparr>m_consumer := {kHIDUsage_Csmr_DisplayBrightnessDecrement,
                      kHIDUsage_Csmr_DisplayBrightnessIncrement},
      posted := posted d1 @ [consumer_input {kHIDUsage_Csmr_DisplayBrightnessDecrement,
                      kHIDUsage_Csmr_DisplayBrightnessIncrement}]\<rparr>"
    using s2 send_key_event_consumer [OF d1(1,2), of "\<lparr>ev_key = F2 kn, ev_state = Down, ev_value = v2\<rparr>" kn]
      k d1(3) by (simp add: u2 update_keys_def insert_commute)
  then have d2: "m_state d2 = connected" "\<not> m_fn_key_hold d2"
    "m_consumer d2 = {kHIDUsage_Csmr_DisplayBrightnessDecrement,
                      kHIDUsage_Csmr_DisplayBrightnessIncrement}"
    using d1 by simp_all
  have 3: "r3 \<and> d3 = d2\<lparr>m_consumer := {kHIDUsage_Csmr_DisplayBrightnessIncrement},
      posted := posted d2 @ [consumer_input {kHIDUsage_Csmr_DisplayBrightnessIncrement}]\<rparr>"
    using s3 send_key_event_consumer [OF d2(1,2), of "\<lparr>ev_key = F1 kn, ev_state = Up, ev_value = v3\<rparr>" kn]
      k d2(3) ne by (simp add: u1 update_keys_def)
  from 1 2 3 show ?thesis by simp
qed

theorem f1_f2_reports_witness:
  "fn_keys_ascending hid_key_names \<and>
   (let d = VirtualDeviceImpl_new\<lparr>m_state := connected\<rparr>;
        s1 = send_key_event hid_key_names (mk_KeyEvent 0x3A Down) d;
        s2 = send_key_event hid_key_names (mk_KeyEvent 0x3B Down) (snd s1);
        s3 = send_key_event hid_key_names (mk_KeyEvent 0x3A Up) (snd s2)
    in fst s1 \<and> fst s2 \<and> fst s3 \<and>
       posted (snd s3) = [consumer_input {0x70}, consumer_input {0x70, 0x6F}, consumer_input {0x6F}])"
proof -
  define d where "d = VirtualDeviceImpl_new\<lparr>m_state := connected\<rparr>"
  define s1 where "s1 = send_key_event hid_key_names (mk_KeyEvent 0x3A Down) d"
  define s2 where "s2 = send_key_event hid_key_names (mk_KeyEvent 0x3B Down) (snd s1)"
  define s3 where "s3 = send_key_event hid_key_names (mk_KeyEvent 0x3A Up) (snd s2)"
  have asc: "fn_keys_ascending hid_key_names"
    by (simp add: fn_keys_ascending_def hid_key_names_def)
  have d: "m_state d = connected" "\<not> m_fn_key_hold d" "m_consumer d = {}" "posted d = []"
    by (simp_all add: d_def VirtualDeviceImpl_new_def)
  have e: "send_key_event hid_key_names \<lparr>ev_key = F1 hid_key_names, ev_state = Down, ev_value = 0\<rparr> d
             = (fst s1, snd s1)"
    "send_key_event hid_key_names \<lparr>ev_key = F2 hid_key_names, ev_state = Down, ev_value = 0\<rparr> (snd s1)
             = (fst s2, snd s2)"
    "send_key_event hid_key_names \<lparr>ev_key = F1 hid_key_names, ev_state = Up, ev_value = 0\<rparr> (snd s2)
             = (fst s3, snd s3)"
    by (simp_all add: s1_def s2_def s3_def mk_KeyEvent_def hid_key_names_def)
  from f1_f2_reports [OF asc d(1-3) e] d(4) asc show ?thesis
    by (simp add: Let_def d_def [symmetric] s1_def [symmetric] s2_def [symmetric]
        s3_def [symmetric] kHIDUsage_Csmr_DisplayBrightnessDecrement_def
        kHIDUsage_Csmr_DisplayBrightnessIncrement_def)
qed

subsection \<open>Strokes and events\<close>

lemma mask_or_restore:
  fixes k :: "16 word"
  assumes "k AND 0xE000 = 0xE000"
  shows "(k AND NOT 0xE000) OR 0xE000 = k"
proof -
  have "(k AND NOT 0xE000) OR 0xE000 = (k AND NOT 0xE000) OR (k AND 0xE000)"
    using assms by simp
  also have "\<dots> = k"
    by (rule bit_word_eqI) (auto simp: bit_simps)
  finally show ?thesis .
qed

lemma mask_clear: "(k AND NOT 0xE000) AND 0xE000 = (0 :: 16 word)"
  by (rule bit_word_eqI) (auto simp: bit_simps)

lemma key_roundtrip:
  assumes "ev_state e = Up \<or> ev_state e = Down"
    and "ev_key e AND 0xE000 = 0 \<or> ev_key e AND 0xE000 = 0xE000"
  shows "get_key_event_key (get_interception_key_stroke e) = e\<lparr>ev_value := 0\<rparr>"
proof (cases e)
  case (fields k s v)
  have r: "k AND 0xE000 = 0xE000 \<Longrightarrow> (k AND - 57345) OR 57344 = k"
    using mask_or_restore [of k] by simp
  from assms fields show ?thesis
    by (auto simp: get_key_event_key_def get_interception_key_stroke_def mk_KeyEvent_def
      flag_set_def INTERCEPTION_KEY_UP_def INTERCEPTION_KEY_DOWN_def INTERCEPTION_KEY_E0_def r)
qed

lemma sint_small:
  fixes v :: "16 word"
  assumes "v \<le> 0x7FFF"
  shows "sint v = uint v"
proof -
  from assms have b: "uint v \<le> 32767" by (simp add: word_le_def)
  have lo: "- (2 ^ 15) \<le> uint v" by (rule order_trans [of _ 0]) simp_all
  have hi: "uint v < 2 ^ 15" using b by simp
  have "sint v = signed_take_bit 15 (uint v)" by (simp add: sint_uint)
  also have "\<dots> = uint v"
    by (rule signed_take_bit_int_eq_self [OF lo hi])
  finally show ?thesis .
qed

lemma sint_neg_small:
  fixes v :: "16 word"
  assumes "v \<le> 0x7FFF"
  shows "sint (- v) = - uint v"
proof -
  from assms have b: "uint v \<le> 32767" by (simp add: word_le_def)
  have lo: "- (2 ^ 15) \<le> - uint v" using b by simp
  have hi: "- uint v < 2 ^ 15" by (rule le_less_trans [of _ 0]) simp_all
  have "sint (- v) = signed_take_bit 15 (- sint v)"
    by (simp add: sint_word_ariths)
  also have "\<dots> = signed_take_bit 15 (- uint v)"
    using assms by (simp only: sint_small)
  also have "\<dots> = - uint v"
    by (rule signed_take_bit_int_eq_self [OF lo hi])
  finally show ?thesis .
qed

lemma wheel_value_back:
  fixes v :: "16 word"
  assumes "v \<le> 0x7FFF" and "v \<noteq> 0"
  shows "\<not> sint v < 0" and "word_of_int \<bar>sint v\<bar> = v"
    and "sint (- v) < 0" and "word_of_int \<bar>sint (- v)\<bar> = v"
proof -
  have p: "0 < uint v" using assms(2) by (simp add: word_greater_zero_iff [symmetric] word_less_def)
  show "\<not> sint v < 0" by (simp add: sint_small [OF assms(1)])
  show "word_of_int \<bar>sint v\<bar> = v" by (simp add: sint_small [OF assms(1)])
  show "sint (- v) < 0" using p by (simp add: sint_neg_small [OF assms(1)])
  show "word_of_int \<bar>sint (- v)\<bar> = v" by (simp add: sint_neg_small [OF assms(1)])
qed

lemmas mouse_flag_defs =
  INTERCEPTION_MOUSE_BUTTON_1_DOWN_def INTERCEPTION_MOUSE_BUTTON_1_UP_def
  INTERCEPTION_MOUSE_BUTTON_2_DOWN_def INTERCEPTION_MOUSE_BUTTON_2_UP_def
  INTERCEPTION_MOUSE_BUTTON_3_DOWN_def INTERCEPTION_MOUSE_BUTTON_3_UP_def
  INTERCEPTION_MOUSE_BUTTON_4_DOWN_def INTERCEPTION_MOUSE_BUTTON_4_UP_def
  INTERCEPTION_MOUSE_BUTTON_5_DOWN_def INTERCEPTION_MOUSE_BUTTON_5_UP_def
  INTERCEPTION_MOUSE_WHEEL_def INTERCEPTION_MOUSE_HWHEEL_def

text \<open>Decoding a stroke that has a single flag set.\<close>

lemma decode_button:
  "get_key_event_mouse kn (InterceptionMouseStroke_zero\<lparr>ms_state := INTERCEPTION_MOUSE_BUTTON_1_DOWN\<rparr>)
     = \<lparr>ev_key = ButtonLeft kn, ev_state = Down, ev_value = 0\<rparr>"
  "get_key_event_mouse kn (InterceptionMouseStroke_zero\<lparr>ms_state := INTERCEPTION_MOUSE_BUTTON_1_UP\<rparr>)
     = \<lparr>ev_key = ButtonLeft kn, ev_state = Up, ev_value = 0\<rparr>"
  "get_key_event_mouse kn (InterceptionMouseStroke_zero\<lparr>ms_state := INTERCEPTION_MOUSE_BUTTON_2_DOWN\<rparr>)
     = \<lparr>ev_key = ButtonRight kn, ev_state = Down, ev_value = 0\<rparr>"
  "get_key_event_mouse kn (InterceptionMouseStroke_zero\<lparr>ms_state := INTERCEPTION_MOUSE_BUTTON_2_UP\<rparr>)
     = \<lparr>ev_key = ButtonRight kn, ev_state = Up, ev_value = 0\<rparr>"
  "get_key_event_mouse kn (InterceptionMouseStroke_zero\<lparr>ms_state := INTERCEPTION_MOUSE_BUTTON_3_DOWN\<rparr>)
     = \<lparr>ev_key = ButtonMiddle kn, ev_state = Down, ev_value = 0\<rparr>"
  "get_key_event_mouse kn (InterceptionMouseStroke_zero\<lparr>ms_state := INTERCEPTION_MOUSE_BUTTON_3_UP\<rparr>)
     = \<lparr>ev_key = ButtonMiddle kn, ev_state = Up, ev_value = 0\<rparr>"
  "get_key_event_mouse kn (InterceptionMouseStroke_zero\<lparr>ms_state := INTERCEPTION_MOUSE_BUTTON_4_DOWN\<rparr>)
     = \<lparr>ev_key = ButtonBack kn, ev_state = Down, ev_value = 0\<rparr>"
  "get_key_event_mouse kn (InterceptionMouseStroke_zero\<lparr>ms_state := INTERCEPTION_MOUSE_BUTTON_4_UP\<rparr>)
     = \<lparr>ev_key = ButtonBack kn, ev_state = Up, ev_value = 0\<rparr>"
  "get_key_event_mouse kn (InterceptionMouseStroke_zero\<lparr>ms_state := INTERCEPTION_MOUSE_BUTTON_5_DOWN\<rparr>)
     = \<lparr>ev_key = ButtonForward kn, ev_state = Down, ev_value = 0\<rparr>"
  "get_key_event_mouse kn (InterceptionMouseStroke_zero\<lparr>ms_state := INTERCEPTION_MOUSE_BUTTON_5_UP\<rparr>)
     = \<lparr>ev_key = ButtonForward kn, ev_state = Up, ev_value = 0\<rparr>"
  by (simp_all add: get_key_event_mouse_def InterceptionMouseStroke_zero_def flag_set_def
      button_event_def mouse_flag_defs)

lemma decode_wheel:
  "get_key_event_mouse kn
     (InterceptionMouseStroke_zero\<lparr>ms_state := INTERCEPTION_MOUSE_WHEEL, ms_rolling := r\<rparr>)
     = \<lparr>ev_key = (if sint r < 0 then WheelDown kn else WheelUp kn), ev_state = Up,
        ev_value = word_of_int \<bar>sint r\<bar>\<rparr>"
  "get_key_event_mouse kn
     (InterceptionMouseStroke_zero\<lparr>ms_state := INTERCEPTION_MOUSE_HWHEEL, ms_rolling := r\<rparr>)
     = \<lparr>ev_key = (if sint r < 0 then WheelLeft kn else WheelRight kn), ev_state = Up,
        ev_value = word_of_int \<bar>sint r\<bar>\<rparr>"
  by (simp_all add: get_key_event_mouse_def InterceptionMouseStroke_zero_def flag_set_def
      mouse_flag_defs)


lemma mouse_keys_distinctD:
  assumes "mouse_keys_distinct kn"
  shows "ButtonRight kn \<noteq> ButtonLeft kn"
    and "ButtonMiddle kn \<noteq> ButtonLeft kn" "ButtonMiddle kn \<noteq> ButtonRight kn"
    and "ButtonBack kn \<noteq> ButtonLeft kn" "ButtonBack kn \<noteq> ButtonRight kn"
      "ButtonBack kn \<noteq> ButtonMiddle kn"
    and "ButtonForward kn \<noteq> ButtonLeft kn" "ButtonForward kn \<noteq> ButtonRight kn"
      "ButtonForward kn \<noteq> ButtonMiddle kn" "ButtonForward kn \<noteq> ButtonBack kn"
    and "WheelDown kn \<noteq> ButtonLeft kn" "WheelDown kn \<noteq> ButtonRight kn"
      "WheelDown kn \<noteq> ButtonMiddle kn" "WheelDown kn \<noteq> ButtonBack kn"
      "WheelDown kn \<noteq> ButtonForward kn"
    and "WheelUp kn \<noteq> ButtonLeft kn" "WheelUp kn \<noteq> ButtonRight kn"
      "WheelUp kn \<noteq> ButtonMiddle kn" "WheelUp kn \<noteq> ButtonBack kn"
      "WheelUp kn \<noteq> ButtonForward kn" "WheelUp kn \<noteq> WheelDown kn"
    and "WheelLeft kn \<noteq> ButtonLeft kn" "WheelLeft kn \<noteq> ButtonRight kn"
      "WheelLeft kn \<noteq> ButtonMiddle kn" "WheelLeft kn \<noteq> ButtonBack kn"
      "WheelLeft kn \<noteq> ButtonForward kn" "WheelLeft kn \<noteq> WheelDown kn"
      "WheelLeft kn \<noteq> WheelUp kn"
    and "WheelRight kn \<noteq> ButtonLeft kn" "WheelRight kn \<noteq> ButtonRight kn"
      "WheelRight kn \<noteq> ButtonMiddle kn" "WheelRight kn \<noteq> ButtonBack kn"
      "WheelRight kn \<noteq> ButtonForward kn" "WheelRight kn \<noteq> WheelDown kn"
      "WheelRight kn \<noteq> WheelUp kn" "WheelRight kn \<noteq> WheelLeft kn"
  using assms unfolding mouse_keys_distinct_def by (simp_all add: eq_commute)

text \<open>The stroke built for each of the nine mouse keys.\<close>

lemma encode_button:
  assumes "mouse_keys_distinct kn"
  shows "ev_key e = ButtonLeft kn \<Longrightarrow> get_interception_mouse_stroke kn e =
      InterceptionMouseStroke_zero\<lparr>ms_state := (if ev_state e = Down
        then INTERCEPTION_MOUSE_BUTTON_1_DOWN else INTERCEPTION_MOUSE_BUTTON_1_UP)\<rparr>"
    and "ev_key e = ButtonRight kn \<Longrightarrow> get_interception_mouse_stroke kn e =
      InterceptionMouseStroke_zero\<lparr>ms_state := (if ev_state e = Down
        then INTERCEPTION_MOUSE_BUTTON_2_DOWN else INTERCEPTION_MOUSE_BUTTON_2_UP)\<rparr>"
    and "ev_key e = ButtonMiddle kn \<Longrightarrow> get_interception_mouse_stroke kn e =
      InterceptionMouseStroke_zero\<lparr>ms_state := (if ev_state e = Down
        then INTERCEPTION_MOUSE_BUTTON_3_DOWN else INTERCEPTION_MOUSE_BUTTON_3_UP)\<rparr>"
    and "ev_key e = ButtonBack kn \<Longrightarrow> get_interception_mouse_stroke kn e =
      InterceptionMouseStroke_zero\<lparr>ms_state := (if ev_state e = Down
        then INTERCEPTION_MOUSE_BUTTON_4_DOWN else INTERCEPTION_MOUSE_BUTTON_4_UP)\<rparr>"
    and "ev_key e = ButtonForward kn \<Longrightarrow> get_interception_mouse_stroke kn e =
      InterceptionMouseStroke_zero\<lparr>ms_state := (if ev_state e = Down
        then INTERCEPTION_MOUSE_BUTTON_5_DOWN else INTERCEPTION_MOUSE_BUTTON_5_UP)\<rparr>"
  using mouse_keys_distinctD [OF assms]
  by (simp_all add: get_interception_mouse_stroke_def Let_def)

lemma encode_wheel:
  assumes "mouse_keys_distinct kn"
  shows "ev_key e = WheelUp kn \<Longrightarrow> get_interception_mouse_stroke kn e =
      InterceptionMouseStroke_zero\<lparr>ms_state := INTERCEPTION_MOUSE_WHEEL,
        ms_rolling := wheel_rolling (ev_value e)\<rparr>"
    and "ev_key e = WheelDown kn \<Longrightarrow> get_interception_mouse_stroke kn e =
      InterceptionMouseStroke_zero\<lparr>ms_state := INTERCEPTION_MOUSE_WHEEL,
        ms_rolling := - wheel_rolling (ev_value e)\<rparr>"
    and "ev_key e = WheelRight kn \<Longrightarrow> get_interception_mouse_stroke kn e =
      InterceptionMouseStroke_zero\<lparr>ms_state := INTERCEPTION_MOUSE_HWHEEL,
        ms_rolling := wheel_rolling (ev_value e)\<rparr>"
    and "ev_key e = WheelLeft kn \<Longrightarrow> get_interception_mouse_stroke kn e =
      InterceptionMouseStroke_zero\<lparr>ms_state := INTERCEPTION_MOUSE_HWHEEL,
        ms_rolling := - wheel_rolling (ev_value e)\<rparr>"
  using mouse_keys_distinctD [OF assms]
  by (simp_all add: get_interception_mouse_stroke_def Let_def wheel_rolling_def)


lemma KeyEvent_eq_iff:
  fixes x y :: KeyEvent
  shows "x = y \<longleftrightarrow> ev_key x = ev_key y \<and> ev_state x = ev_state y \<and> ev_value x = ev_value y"
  by (cases x, cases y) auto

lemma wheel_roundtrip:
  assumes d: "mouse_keys_distinct kn"
    and k: "ev_key e \<in> {WheelDown kn, WheelUp kn, WheelLeft kn, WheelRight kn}"
    and v: "wheel_rolling (ev_value e) \<le> 0x7FFF"
  shows "get_key_event_mouse kn (get_interception_mouse_stroke kn e) =
           e\<lparr>ev_state := Up, ev_value := wheel_rolling (ev_value e)\<rparr>"
proof -
  have nz: "wheel_rolling (ev_value e) \<noteq> 0"
    by (simp add: wheel_rolling_def WHEEL_DELTA_def)
  note w = wheel_value_back [OF v nz]
  from k consider "ev_key e = WheelDown kn" | "ev_key e = WheelUp kn"
    | "ev_key e = WheelLeft kn" | "ev_key e = WheelRight kn" by auto
  then show ?thesis
  proof cases
    case 1 then show ?thesis by (simp add: KeyEvent_eq_iff encode_wheel [OF d] decode_wheel w)
  next
    case 2 then show ?thesis by (simp add: KeyEvent_eq_iff encode_wheel [OF d] decode_wheel w)
  next
    case 3 then show ?thesis by (simp add: KeyEvent_eq_iff encode_wheel [OF d] decode_wheel w)
  next
    case 4 then show ?thesis by (simp add: KeyEvent_eq_iff encode_wheel [OF d] decode_wheel w)
  qed
qed

lemma button_roundtrip:
  assumes d: "mouse_keys_distinct kn"
    and k: "ev_key e \<in> {ButtonLeft kn, ButtonRight kn, ButtonMiddle kn, ButtonBack kn,
                         ButtonForward kn}"
    and s: "ev_state e = Up \<or> ev_state e = Down"
  shows "get_key_event_mouse kn (get_interception_mouse_stroke kn e) = e\<lparr>ev_value := 0\<rparr>"
proof -
  from k consider "ev_key e = ButtonLeft kn" | "ev_key e = ButtonRight kn"
    | "ev_key e = ButtonMiddle kn" | "ev_key e = ButtonBack kn" | "ev_key e = ButtonForward kn"
    by auto
  then show ?thesis
  proof cases
    case 1 with s show ?thesis by (auto simp: KeyEvent_eq_iff encode_button [OF d] decode_button)
  next
    case 2 with s show ?thesis by (auto simp: KeyEvent_eq_iff encode_button [OF d] decode_button)
  next
    case 3 with s show ?thesis by (auto simp: KeyEvent_eq_iff encode_button [OF d] decode_button)
  next
    case 4 with s show ?thesis by (auto simp: KeyEvent_eq_iff encode_button [OF d] decode_button)
  next
    case 5 with s show ?thesis by (auto simp: KeyEvent_eq_iff encode_button [OF d] decode_button)
  qed
qed

text \<open>
  C1, as amended. Converting an event to a native stroke and back gives: for a keyboard event
  whose state is Up or Down and whose key has the three top bits all clear or all set, the
  same key and state, with the value 0; for an event of one of the five mouse buttons whose
  state is Up or Down, the same key and state, with the value 0; for an event of one of
  the four wheel keys whose value lies between 1 and 32767, the same key and value, with the
  state Up; and for a wheel event whose value is 0, the same key with the state Up and the
  value \<open>WHEEL_DELTA\<close>.
\<close>

theorem stroke_roundtrip:
  assumes "mouse_keys_distinct kn"
  shows
    "((ev_state e = Up \<or> ev_state e = Down) \<and>
      (ev_key e AND 0xE000 = 0 \<or> ev_key e AND 0xE000 = 0xE000) \<longrightarrow>
        get_key_event_key (get_interception_key_stroke e) = e\<lparr>ev_value := 0\<rparr>) \<and>
     ((ev_state e = Up \<or> ev_state e = Down) \<and>
      ev_key e \<in> {ButtonLeft kn, ButtonRight kn, ButtonMiddle kn, ButtonBack kn, ButtonForward kn} \<longrightarrow>
        get_key_event_mouse kn (get_interception_mouse_stroke kn e) = e\<lparr>ev_value := 0\<rparr>) \<and>
     (ev_key e \<in> {WheelDown kn, WheelUp kn, WheelLeft kn, WheelRight kn} \<and>
      ev_value e \<noteq> 0 \<and> ev_value e \<le> 0x7FFF \<longrightarrow>
        get_key_event_mouse kn (get_interception_mouse_stroke kn e) = e\<lparr>ev_state := Up\<rparr>) \<and>
     (ev_key e \<in> {WheelDown kn, WheelUp kn, WheelLeft kn, WheelRight kn} \<and> ev_value e = 0 \<longrightarrow>
        get_key_event_mouse kn (get_interception_mouse_stroke kn e) =
          e\<lparr>ev_state := Up, ev_value := WHEEL_DELTA\<rparr>)"
proof (intro conjI impI)
  assume "(ev_state e = Up \<or> ev_state e = Down) \<and>
          (ev_key e AND 0xE000 = 0 \<or> ev_key e AND 0xE000 = 0xE000)"
  then show "get_key_event_key (get_interception_key_stroke e) = e\<lparr>ev_value := 0\<rparr>"
    by (intro key_roundtrip) simp_all
next
  assume "(ev_state e = Up \<or> ev_state e = Down) \<and>
      ev_key e \<in> {ButtonLeft kn, ButtonRight kn, ButtonMiddle kn, ButtonBack kn, ButtonForward kn}"
  then show "get_key_event_mouse kn (get_interception_mouse_stroke kn e) = e\<lparr>ev_value := 0\<rparr>"
    by (intro button_roundtrip [OF assms]) simp_all
next
  assume a: "ev_key e \<in> {WheelDown kn, WheelUp kn, WheelLeft kn, WheelRight kn} \<and>
      ev_value e \<noteq> 0 \<and> ev_value e \<le> 0x7FFF"
  then have "wheel_rolling (ev_value e) = ev_value e" by (simp add: wheel_rolling_def)
  with a wheel_roundtrip [OF assms, of e]
  show "get_key_event_mouse kn (get_interception_mouse_stroke kn e) = e\<lparr>ev_state := Up\<rparr>"
    by (simp add: KeyEvent_eq_iff)
next
  assume a: "ev_key e \<in> {WheelDown kn, WheelUp kn, WheelLeft kn, WheelRight kn} \<and> ev_value e = 0"
  then have "wheel_rolling (ev_value e) = WHEEL_DELTA" by (simp add: wheel_rolling_def)
  moreover have "WHEEL_DELTA \<le> 0x7FFF" by (simp add: WHEEL_DELTA_def)
  ultimately show "get_key_event_mouse kn (get_interception_mouse_stroke kn e) =
          e\<lparr>ev_state := Up, ev_value := WHEEL_DELTA\<rparr>"
    using a wheel_roundtrip [OF assms, of e] by simp
qed

lemma hid_key_names_distinct: "mouse_keys_distinct hid_key_names"
  by (simp add: mouse_keys_distinct_def hid_key_names_def)

theorem stroke_roundtrip_witness:
  "mouse_keys_distinct hid_key_names \<and>
   get_key_event_key (get_interception_key_stroke \<lparr>ev_key = 0xE01D, ev_state = Down, ev_value = 0\<rparr>)
     = \<lparr>ev_key = 0xE01D, ev_state = Down, ev_value = 0\<rparr> \<and>
   get_key_event_key (get_interception_key_stroke \<lparr>ev_key = 0x3B, ev_state = Up, ev_value = 0\<rparr>)
     = \<lparr>ev_key = 0x3B, ev_state = Up, ev_value = 0\<rparr> \<and>
   get_key_event_mouse hid_key_names
     (get_interception_mouse_stroke hid_key_names \<lparr>ev_key = 0xF003, ev_state = Down, ev_value = 0\<rparr>)
     = \<lparr>ev_key = 0xF003, ev_state = Down, ev_value = 0\<rparr> \<and>
   get_key_event_mouse hid_key_names
     (get_interception_mouse_stroke hid_key_names \<lparr>ev_key = 0xF006, ev_state = Down, ev_value = 240\<rparr>)
     = \<lparr>ev_key = 0xF006, ev_state = Up, ev_value = 240\<rparr> \<and>
   get_key_event_mouse hid_key_names
     (get_interception_mouse_stroke hid_key_names \<lparr>ev_key = 0xF008, ev_state = Up, ev_value = 0\<rparr>)
     = \<lparr>ev_key = 0xF008, ev_state = Up, ev_value = 120\<rparr>"
  using stroke_roundtrip [OF hid_key_names_distinct, of "\<lparr>ev_key = 0xE01D, ev_state = Down, ev_value = 0\<rparr>"]
    stroke_roundtrip [OF hid_key_names_distinct, of "\<lparr>ev_key = 0x3B, ev_state = Up, ev_value = 0\<rparr>"]
    stroke_roundtrip [OF hid_key_names_distinct, of "\<lparr>ev_key = 0xF003, ev_state = Down, ev_value = 0\<rparr>"]
    stroke_roundtrip [OF hid_key_names_distinct, of "\<lparr>ev_key = 0xF006, ev_state = Down, ev_value = 240\<rparr>"]
    stroke_roundtrip [OF hid_key_names_distinct, of "\<lparr>ev_key = 0xF008, ev_state = Up, ev_value = 0\<rparr>"]
    hid_key_names_distinct
  by (simp add: hid_key_names_def WHEEL_DELTA_def)

text \<open>
  C1 as stated fails: the wheel event with the value 0 comes back with the magnitude 120.
\<close>

theorem wheel_roundtrip_counterexample:
  "ev_value (get_key_event_mouse hid_key_names
      (get_interception_mouse_stroke hid_key_names
         \<lparr>ev_key = WheelUp hid_key_names, ev_state = Up, ev_value = 0\<rparr>))
   \<noteq> ev_value \<lparr>ev_key = WheelUp hid_key_names, ev_state = Up, ev_value = 0\<rparr>"
  by (simp add: encode_wheel [OF hid_key_names_distinct] decode_wheel wheel_rolling_def
      WHEEL_DELTA_def)

subsection \<open>The message word\<close>

lemma input_wparam_bits:
  "bit (input_wparam sc e) n \<longleftrightarrow>
     (n < 16 \<and> bit (ev_key e) n) \<or>
     (16 \<le> n \<and> n < 21 \<and> bit (sc (ev_state e)) (n - 16)) \<or>
     (21 \<le> n \<and> n < 32 \<and> bit (ev_value e) (n - 21))"
proof -
  have m: "(0xFFFF :: 32 word) = mask 16" "(0x1F :: 32 word) = mask 5"
    "(0x7FF :: 32 word) = mask 11"
    by (simp_all add: mask_eq_exp_minus_1)
  show ?thesis
    unfolding input_wparam_def MAKEWPARAM_def m take_bit_eq_mask [symmetric]
    by (auto simp: bit_simps dest: bit_imp_le_length)
qed

lemma thread_func_stroke_resolved:
  assumes "get_device_handle (hardware_ids_of drv) device (interception c) = Some (h, ic1)"
    and "h \<noteq> 0"
  shows "\<exists>c'. thread_func_stroke kn sc drv host device stroke c = Some c' \<and>
           messages c' = messages c @
             [(input_wparam sc
                 (if interception_is_keyboard device
                  then get_key_event_key (as_key_stroke drv stroke)
                  else get_key_event_mouse kn (as_mouse_stroke drv stroke)), h)]"
  using assms by (simp add: thread_func_stroke_def Let_def)

text \<open>
  C10. The message word that \<open>thread_func\<close> hands to the host consists of the 16 bits of
  the key, above them the low 5 bits of the state and above those the low 11 bits of the
  value; two events that agree on key, state and the low 11 bits of the value have the same
  message word; and for a stroke whose device resolves to a handle, that word, with the
  handle, is the message the thread sends.
\<close>

theorem input_wparam_fields:
  "take_bit 16 (input_wparam sc e) = ucast (ev_key e) \<and>
   take_bit 5 (drop_bit 16 (input_wparam sc e)) = ucast (take_bit 5 (sc (ev_state e))) \<and>
   drop_bit 21 (input_wparam sc e) = ucast (take_bit 11 (ev_value e)) \<and>
   (ev_key e = ev_key e' \<and> ev_state e = ev_state e' \<and>
    take_bit 11 (ev_value e) = take_bit 11 (ev_value e') \<longrightarrow>
      input_wparam sc e = input_wparam sc e') \<and>
   (get_device_handle (hardware_ids_of drv) device (interception c) = Some (h, ic1) \<and> h \<noteq> 0 \<longrightarrow>
      (\<exists>c'. thread_func_stroke kn sc drv host device stroke c = Some c' \<and>
            messages c' = messages c @
              [(input_wparam sc
                  (if interception_is_keyboard device
                   then get_key_event_key (as_key_stroke drv stroke)
                   else get_key_event_mouse kn (as_mouse_stroke drv stroke)), h)]))"
proof (intro conjI impI)
  show "take_bit 16 (input_wparam sc e) = ucast (ev_key e)"
    by (rule bit_word_eqI) (auto simp: bit_simps input_wparam_bits dest: bit_imp_le_length)
  show "take_bit 5 (drop_bit 16 (input_wparam sc e)) = ucast (take_bit 5 (sc (ev_state e)))"
    by (rule bit_word_eqI) (auto simp: bit_simps input_wparam_bits dest: bit_imp_le_length)
  show "drop_bit 21 (input_wparam sc e) = ucast (take_bit 11 (ev_value e))"
    by (rule bit_word_eqI) (auto simp: bit_simps input_wparam_bits dest: bit_imp_le_length)
next
  assume a: "ev_key e = ev_key e' \<and> ev_state e = ev_state e' \<and>
    take_bit 11 (ev_value e) = take_bit 11 (ev_value e')"
  then have "\<And>n. n < 11 \<Longrightarrow> bit (ev_value e) n = bit (ev_value e') n"
    by (metis bit_take_bit_iff)
  with a show "input_wparam sc e = input_wparam sc e'"
    by (intro bit_word_eqI) (auto simp: input_wparam_bits)
next
  assume "get_device_handle (hardware_ids_of drv) device (interception c) = Some (h, ic1) \<and> h \<noteq> 0"
  then show "\<exists>c'. thread_func_stroke kn sc drv host device stroke c = Some c' \<and>
            messages c' = messages c @
              [(input_wparam sc
                  (if interception_is_keyboard device
                   then get_key_event_key (as_key_stroke drv stroke)
                   else get_key_event_mouse kn (as_mouse_stroke drv stroke)), h)]"
    by (intro thread_func_stroke_resolved) simp_all
qed

lemma sample_capture_resolves:
  "get_device_handle (hardware_ids_of sample_driver) 11 (interception sample_capture) =
     Some (7, interception sample_capture)"
  by (simp add: get_device_handle_def sample_capture_def Interception_new_def Let_def)

lemma sample_wheel_events:
  "get_key_event_mouse hid_key_names (wheel_stroke 1) =
     \<lparr>ev_key = 0xF005, ev_state = Up, ev_value = 1\<rparr>"
  "get_key_event_mouse hid_key_names (wheel_stroke 2049) =
     \<lparr>ev_key = 0xF005, ev_state = Up, ev_value = 2049\<rparr>"
  by (simp_all add: wheel_stroke_def get_key_event_mouse_def InterceptionMouseStroke_zero_def
      flag_set_def hid_key_names_def INTERCEPTION_MOUSE_BUTTON_1_DOWN_def
      INTERCEPTION_MOUSE_BUTTON_1_UP_def INTERCEPTION_MOUSE_BUTTON_2_DOWN_def
      INTERCEPTION_MOUSE_BUTTON_2_UP_def INTERCEPTION_MOUSE_BUTTON_3_DOWN_def
      INTERCEPTION_MOUSE_BUTTON_3_UP_def INTERCEPTION_MOUSE_BUTTON_4_DOWN_def
      INTERCEPTION_MOUSE_BUTTON_4_UP_def INTERCEPTION_MOUSE_BUTTON_5_DOWN_def
      INTERCEPTION_MOUSE_BUTTON_5_UP_def INTERCEPTION_MOUSE_WHEEL_def)

theorem input_wparam_fields_witness:
  "(\<exists>c1 c2.
      thread_func_stroke hid_key_names sample_state_code sample_driver (\<lambda>w h. True) 11
        (wheel_stroke 1) sample_capture = Some c1 \<and>
      thread_func_stroke hid_key_names sample_state_code sample_driver (\<lambda>w h. True) 11
        (wheel_stroke 2049) sample_capture = Some c2 \<and>
      messages c1 = [(0x20F005, 7)] \<and> messages c2 = messages c1)"
proof -
  let ?e1 = "\<lparr>ev_key = 0xF005, ev_state = Up, ev_value = 1\<rparr>"
  let ?e2 = "\<lparr>ev_key = 0xF005, ev_state = Up, ev_value = 2049\<rparr>"
  let ?T = "\<lambda>r. thread_func_stroke hid_key_names sample_state_code sample_driver
      (\<lambda>w h. True) 11 (wheel_stroke r) sample_capture"
  note th = input_wparam_fields [of sample_state_code ?e1 ?e2 sample_driver 11 sample_capture 7
      "interception sample_capture" hid_key_names "\<lambda>w h. True"]
  have tb: "take_bit 11 (1 :: 16 word) = take_bit 11 2049"
    by (rule bit_word_eqI) (simp add: bit_simps)
  have pre: "ev_key ?e1 = ev_key ?e2 \<and> ev_state ?e1 = ev_state ?e2 \<and>
    take_bit 11 (ev_value ?e1) = take_bit 11 (ev_value ?e2)"
    using tb by simp
  have eq: "input_wparam sample_state_code ?e1 = input_wparam sample_state_code ?e2"
    using th [of "wheel_stroke 1", THEN conjunct2, THEN conjunct2, THEN conjunct2, THEN conjunct1]
      pre by (rule mp)
  have v: "input_wparam sample_state_code ?e1 = 0x20F005"
    by (simp add: input_wparam_def MAKEWPARAM_def sample_state_code_def)
  have k: "\<not> interception_is_keyboard 11"
    by (simp add: interception_is_keyboard_def INTERCEPTION_MAX_KEYBOARD_def)
  have m: "messages sample_capture = []" by (simp add: sample_capture_def)
  have ms: "as_mouse_stroke sample_driver = (\<lambda>s. s)" by (simp add: sample_driver_def)
  have res: "get_device_handle (hardware_ids_of sample_driver) 11 (interception sample_capture) =
     Some (7, interception sample_capture) \<and> (7 :: nat) \<noteq> 0"
    using sample_capture_resolves by simp
  have "\<exists>c'. ?T 1 = Some c' \<and> messages c' = messages sample_capture @
      [(input_wparam sample_state_code
         (if interception_is_keyboard 11
          then get_key_event_key (as_key_stroke sample_driver (wheel_stroke 1))
          else get_key_event_mouse hid_key_names (as_mouse_stroke sample_driver (wheel_stroke 1))), 7)]"
    using th [of "wheel_stroke 1", THEN conjunct2, THEN conjunct2, THEN conjunct2, THEN conjunct2]
      res by (rule mp)
  then obtain c1 where c1: "?T 1 = Some c1"
    "messages c1 = [(input_wparam sample_state_code ?e1, 7)]"
    by (auto simp only: k m ms if_False append_Nil sample_wheel_events)
  have "\<exists>c'. ?T 2049 = Some c' \<and> messages c' = messages sample_capture @
      [(input_wparam sample_state_code
         (if interception_is_keyboard 11
          then get_key_event_key (as_key_stroke sample_driver (wheel_stroke 2049))
          else get_key_event_mouse hid_key_names (as_mouse_stroke sample_driver (wheel_stroke 2049))), 7)]"
    using th [of "wheel_stroke 2049", THEN conjunct2, THEN conjunct2, THEN conjunct2, THEN conjunct2]
      res by (rule mp)
  then obtain c2 where c2: "?T 2049 = Some c2"
    "messages c2 = [(input_wparam sample_state_code ?e2, 7)]"
    by (auto simp only: k m ms if_False append_Nil sample_wheel_events)
  from c1 c2 eq v show ?thesis by simp
qed

subsection \<open>Setting up the capture\<close>

lemma initialize_fresh:
  assumes "m_window st = 0"
  shows "fst (initialize env window st) = setup_succeeds env"
    and "m_window (snd (initialize env window st)) = window"
    and "\<not> setup_succeeds env \<Longrightarrow> m_interception (snd (initialize env window st)) = m_interception st"
  using assms
  by (auto simp: initialize_def Interception_initialize_def Interception_new_def
      setup_succeeds_def Let_def split: option.splits)

lemma initialize_guard:
  assumes "m_window st \<noteq> 0"
  shows "initialize env window st = (m_interception st \<noteq> None, st)"
  using assms by (simp add: initialize_def initialized_def)

text \<open>
  C9, as amended. When \<open>initialize\<close> is called with a non-null window on an object that has
  no window and no capture object, and returns false, then every further call of
  \<open>initialize\<close> on that object returns false and changes nothing, whatever the system would
  answer; after \<open>shutdown\<close> the set-up is attempted again, and \<open>initialize\<close> returns true
  exactly when the driver loads, its context is created and the registration succeeds.
\<close>

theorem initialize_no_retry:
  assumes "m_window st = 0" and "m_interception st = None" and "window \<noteq> 0"
    and "initialize env1 window st = (False, st1)"
  shows "initialize env2 window2 st1 = (False, st1) \<and>
         fst (initialize env2 window2 (shutdown st1)) = setup_succeeds env2"
proof -
  from assms(4) have r: "fst (initialize env1 window st) = False"
    "st1 = snd (initialize env1 window st)" by simp_all
  from r(1) initialize_fresh(1) [OF assms(1)] have f: "\<not> setup_succeeds env1" by simp
  have w: "m_window st1 = window" unfolding r(2) by (rule initialize_fresh(2) [OF assms(1)])
  have i: "m_interception st1 = None"
    unfolding r(2) using initialize_fresh(3) [OF assms(1) f] assms(2) by simp
  have "initialize env2 window2 st1 = (False, st1)"
    using initialize_guard [of st1 env2 window2] w assms(3) i by simp
  moreover have "fst (initialize env2 window2 (shutdown st1)) = setup_succeeds env2"
    by (rule initialize_fresh(1)) (simp add: shutdown_def)
  ultimately show ?thesis by simp
qed

lemma initialize_missing_driver:
  "initialize missing_driver_env 1 (Devices_new :: unit Devices) =
     (False, Devices_new\<lparr>m_window := 1, m_error_message := msg_driver_missing\<rparr>)"
  by (simp add: initialize_def Interception_initialize_def Interception_new_def
      missing_driver_env_def Devices_new_def Let_def)

theorem initialize_no_retry_witness:
  "initialize missing_driver_env 1 (Devices_new :: unit Devices) =
     (False, Devices_new\<lparr>m_window := 1, m_error_message := msg_driver_missing\<rparr>) \<and>
   initialize working_env 1 (Devices_new\<lparr>m_window := 1, m_error_message := msg_driver_missing\<rparr>
       :: unit Devices) =
     (False, Devices_new\<lparr>m_window := 1, m_error_message := msg_driver_missing\<rparr>) \<and>
   fst (initialize working_env 1
     (shutdown (Devices_new\<lparr>m_window := 1, m_error_message := msg_driver_missing\<rparr>
        :: unit Devices)))"
proof -
  have a: "m_window (Devices_new :: unit Devices) = 0"
    "m_interception (Devices_new :: unit Devices) = None" "(1 :: nat) \<noteq> 0"
    by (simp_all add: Devices_new_def)
  have s: "setup_succeeds working_env" by (simp add: setup_succeeds_def working_env_def)
  from initialize_no_retry [OF a initialize_missing_driver, of working_env 1]
    initialize_missing_driver s
  show ?thesis by simp
qed

text \<open>
  C9 as stated fails: after a failed \<open>initialize\<close>, a second call returns false in an
  environment in which the set-up succeeds on a new object.
\<close>

theorem initialize_retry_counterexample:
  "\<not> fst (initialize missing_driver_env 1 (Devices_new :: unit Devices)) \<and>
   fst (initialize working_env 1 (Devices_new :: unit Devices)) \<and>
   \<not> fst (initialize working_env 1
          (snd (initialize missing_driver_env 1 (Devices_new :: unit Devices))))"
  by (simp add: initialize_def Interception_initialize_def Interception_new_def initialized_def
      missing_driver_env_def working_env_def Devices_new_def Let_def)

subsection \<open>The capture thread\<close>

lemma no_match_no_handle:
  assumes "\<forall>(handle, hardware_ids) \<in> set hs. match_hardware_ids hardware_ids ids = Some False"
  shows "get_device_handle_by_hardware_id hs ids = Some 0"
  using assms by (induction hs) auto

text \<open>
  C4. When the identity map has no handle for the slot of a received stroke and none of the
  recorded hardware-id lists matches the ids that the driver reports for the slot, the body
  of the capture loop sends the stroke back to the driver, same slot and same buffer, sends
  no message to the host, and leaves \<open>m_last_keyboard\<close> and \<open>m_last_mouse\<close> as they were.
\<close>

theorem unresolved_stroke_passthrough:
  assumes "m_handle_by_device (interception c) device = None \<or>
           m_handle_by_device (interception c) device = Some 0"
    and "\<forall>(handle, hardware_ids) \<in> set (m_handle_with_hardware_ids (interception c)).
           match_hardware_ids hardware_ids (hardware_ids_of drv device) = Some False"
  shows "\<exists>c'. thread_func_stroke kn sc drv host device stroke c = Some c' \<and>
           sent c' = sent c @ [(device, stroke)] \<and>
           messages c' = messages c \<and>
           m_last_keyboard (interception c') = m_last_keyboard (interception c) \<and>
           m_last_mouse (interception c') = m_last_mouse (interception c)"
proof -
  from assms(2) have "get_device_handle_by_hardware_id
      (m_handle_with_hardware_ids (interception c)) (hardware_ids_of drv device) = Some 0"
    by (rule no_match_no_handle)
  with assms(1) have "get_device_handle (hardware_ids_of drv) device (interception c) =
      Some (0, (interception c)\<lparr>m_handle_by_device :=
                 (m_handle_by_device (interception c))(device \<mapsto> 0)\<rparr>)"
    by (auto simp: get_device_handle_def Let_def)
  then show ?thesis
    by (simp add: thread_func_stroke_def Let_def)
qed

lemma unmatched_ids:
  "match_hardware_ids (vid_1_pid_2_rev_3 @ [0]) (acpi_keyboard_id @ [0]) = Some False"
  by code_simp

theorem unresolved_stroke_passthrough_witness:
  "\<exists>c'. thread_func_stroke hid_key_names sample_state_code unmatched_driver (\<lambda>w h. True) 11
           (wheel_stroke 120) unmatched_capture = Some c' \<and>
         sent c' = [(11, wheel_stroke 120)] \<and> messages c' = [] \<and>
         m_last_keyboard (interception c') = 0 \<and> m_last_mouse (interception c') = 12"
proof -
  have 1: "m_handle_by_device (interception unmatched_capture) 11 = None \<or>
           m_handle_by_device (interception unmatched_capture) 11 = Some 0"
    by (simp add: unmatched_capture_def Interception_new_def)
  have 2: "\<forall>(handle, hardware_ids) \<in> set (m_handle_with_hardware_ids (interception unmatched_capture)).
           match_hardware_ids hardware_ids (hardware_ids_of unmatched_driver 11) = Some False"
    using unmatched_ids by (simp add: unmatched_capture_def unmatched_driver_def)
  from unresolved_stroke_passthrough [OF 1 2, of hid_key_names sample_state_code
      "\<lambda>w h. True" "wheel_stroke 120"]
  show ?thesis by (simp add: unmatched_capture_def Interception_new_def)
qed

subsection \<open>Hardware-id matching\<close>

lemma two_entry_list_matches:
  "match_hardware_ids (vid_1_pid_2_rev_3 @ [0] @ vid_1_pid_2_rev_3_mi_00 @ [0])
     (vid_1_pid_2_rev_3_mi_00 @ [0]) = Some True"
  by code_simp

lemma first_entry_alone_matches:
  "match_hardware_ids (vid_1_pid_2_rev_3 @ [0]) (vid_1_pid_2_rev_3_mi_00 @ [0]) = Some True"
  by code_simp

lemma first_entry_decides:
  "entry_at (vid_1_pid_2_rev_3 @ [0] @ vid_1_pid_2_rev_3_mi_00 @ [0]) 0 = vid_1_pid_2_rev_3"
  "entry_at (vid_1_pid_2_rev_3_mi_00 @ [0]) 0 = vid_1_pid_2_rev_3_mi_00"
  "match_entry vid_1_pid_2_rev_3 (get_vid_pid_rev vid_1_pid_2_rev_3)
     (vid_1_pid_2_rev_3_mi_00 @ [0]) 0 = Some True"
  by code_simp+

lemma sample_triples:
  "get_vid_pid_rev vid_1_pid_2_rev_3 = Some (1, 2, 3)"
  "get_vid_pid_rev vid_1_pid_2_rev_3_mi_00 = Some (1, 2, 3)"
  by code_simp+

lemma sample_entries_differ: "vid_1_pid_2_rev_3 \<noteq> vid_1_pid_2_rev_3_mi_00"
  by (simp add: vid_1_pid_2_rev_3_mi_00_def)

text \<open>
  C7. The list with the entries \<open>HID\VID_1&PID_2&REV_3\<close> and
  \<open>HID\VID_1&PID_2&REV_3\MI_00\<close> matches the list with the second entry alone. The pair that
  decides is the first entry of the one and the entry of the other: they differ as strings,
  both parse to the triple (1, 2, 3), and the inner loop returns true on them. The list with
  the first entry alone, where no pair of entries is equal, matches as well.
\<close>

theorem composite_device_matches:
  "match_hardware_ids (vid_1_pid_2_rev_3 @ [0] @ vid_1_pid_2_rev_3_mi_00 @ [0])
     (vid_1_pid_2_rev_3_mi_00 @ [0]) = Some True \<and>
   entry_at (vid_1_pid_2_rev_3 @ [0] @ vid_1_pid_2_rev_3_mi_00 @ [0]) 0 = vid_1_pid_2_rev_3 \<and>
   entry_at (vid_1_pid_2_rev_3_mi_00 @ [0]) 0 = vid_1_pid_2_rev_3_mi_00 \<and>
   vid_1_pid_2_rev_3 \<noteq> vid_1_pid_2_rev_3_mi_00 \<and>
   get_vid_pid_rev vid_1_pid_2_rev_3 = Some (1, 2, 3) \<and>
   get_vid_pid_rev vid_1_pid_2_rev_3_mi_00 = Some (1, 2, 3) \<and>
   match_entry vid_1_pid_2_rev_3 (get_vid_pid_rev vid_1_pid_2_rev_3)
     (vid_1_pid_2_rev_3_mi_00 @ [0]) 0 = Some True \<and>
   match_hardware_ids (vid_1_pid_2_rev_3 @ [0]) (vid_1_pid_2_rev_3_mi_00 @ [0]) = Some True"
  using two_entry_list_matches first_entry_alone_matches first_entry_decides sample_triples
    sample_entries_differ
  by (intro conjI)

lemma takeWhile_stops:
  "x \<in> set xs \<Longrightarrow> \<not> P x \<Longrightarrow> length (takeWhile P xs) < length xs"
  by (induct xs) auto

lemma takeWhile_before:
  assumes "j < length (takeWhile P xs)"
  shows "P (xs ! j)"
proof -
  from assms have "takeWhile P xs ! j \<in> set (takeWhile P xs)" by (rule nth_mem)
  then have "P (takeWhile P xs ! j)" by (rule set_takeWhileD [THEN conjunct2])
  then show ?thesis by (simp only: takeWhile_nth [OF assms])
qed

lemma find_nul_terminated:
  assumes "terminated s" and "b < length s"
  shows "\<exists>i. find_nul s b = Some i \<and> b \<le> i \<and> i < length s \<and> s ! i = 0 \<and>
             (\<forall>j. b \<le> j \<and> j < i \<longrightarrow> s ! j \<noteq> 0)"
proof -
  define r where "r = drop b s"
  define t where "t = takeWhile (\<lambda>c. c \<noteq> 0) r"
  from assms have ne: "r \<noteq> []" and l: "last r = 0"
    by (auto simp: terminated_def r_def)
  from last_in_set [OF ne] l have mem: "0 \<in> set r" by simp
  have lt: "length t < length r"
    unfolding t_def by (rule takeWhile_stops [OF mem]) simp
  have z: "r ! length t = 0"
    using nth_length_takeWhile [of "\<lambda>c. c \<noteq> 0" r] lt by (simp add: t_def)
  have nz: "\<And>j. j < length t \<Longrightarrow> r ! j \<noteq> 0"
    unfolding t_def by (rule takeWhile_before)
  have lr: "length r = length s - b" by (simp add: r_def)
  have f: "find_nul s b = Some (b + length t)"
    using mem by (simp add: find_nul_def r_def t_def)
  have 1: "b + length t < length s" using lt lr by arith
  have 2: "s ! (b + length t) = 0" using z 1 by (simp add: r_def)
  have 3: "\<forall>j. b \<le> j \<and> j < b + length t \<longrightarrow> s ! j \<noteq> 0"
  proof (intro allI impI)
    fix j assume j: "b \<le> j \<and> j < b + length t"
    then have jt: "j - b < length t" by arith
    from j 1 have "r ! (j - b) = s ! j" by (simp add: r_def)
    with nz [OF jt] show "s ! j \<noteq> 0" by simp
  qed
  from f 1 2 3 show ?thesis by simp
qed

lemma entries_step:
  assumes "terminated s" and "b < length s" and "entry_start s b"
  shows "b < next_entry s b \<and> next_entry s b \<le> length s \<and> entry_start s (next_entry s b) \<and>
         entries_from s b = insert (entry_at s b) (entries_from s (next_entry s b))"
proof -
  from find_nul_terminated [OF assms(1,2)] obtain i where
    i: "find_nul s b = Some i" "b \<le> i" "i < length s" "s ! i = 0"
       "\<forall>j. b \<le> j \<and> j < i \<longrightarrow> s ! j \<noteq> 0"
    by blast
  have n: "next_entry s b = Suc i" using i(1) by (simp add: next_entry_def)
  have st: "entry_start s (Suc i)" using i(4) by (simp add: entry_start_def)
  have "entries_from s b = insert (entry_at s b) (entries_from s (Suc i))"
  proof (intro set_eqI iffI)
    fix e assume "e \<in> entries_from s b"
    then obtain p where p: "e = entry_at s p" "b \<le> p" "p < length s" "entry_start s p"
      by (auto simp: entries_from_def)
    show "e \<in> insert (entry_at s b) (entries_from s (Suc i))"
    proof (cases "p = b")
      case True with p(1) show ?thesis by simp
    next
      case False
      with p(2) have "b < p" by simp
      with p(4) have "s ! (p - 1) = 0" and "b \<le> p - 1" by (auto simp: entry_start_def)
      with i(5) have "\<not> p - 1 < i" by blast
      with \<open>b < p\<close> have "Suc i \<le> p" by arith
      with p show ?thesis by (auto simp: entries_from_def)
    qed
  next
    fix e assume "e \<in> insert (entry_at s b) (entries_from s (Suc i))"
    then show "e \<in> entries_from s b"
      using assms(2,3) i(2) by (auto simp: entries_from_def)
  qed
  with n st i show ?thesis by simp
qed

lemma entries_from_end: "length s \<le> b \<Longrightarrow> entries_from s b = {}"
  by (auto simp: entries_from_def)

lemma match_entry_terminated:
  assumes "terminated list_b" and "entry_start list_b b"
  shows "match_entry entry_a v list_b b =
           Some (\<exists>entry_b \<in> entries_from list_b b. entry_hit entry_a v entry_b)"
  using assms(2)
proof (induction "length list_b - b" arbitrary: b rule: less_induct)
  case less
  show ?case
  proof (cases "b < length list_b")
    case False
    then show ?thesis
      by (subst match_entry.simps) (simp add: entries_from_end)
  next
    case True
    note s = entries_step [OF assms(1) True less.prems]
    from s True have d: "length list_b - next_entry list_b b < length list_b - b" by arith
    from s have st: "entry_start list_b (next_entry list_b b)" by simp
    note ih = less.hyps [OF d st]
    from s have e: "entries_from list_b b =
        insert (entry_at list_b b) (entries_from list_b (next_entry list_b b))" by simp
    show ?thesis
      by (subst match_entry.simps) (auto simp: True e ih Let_def entry_hit_def)
  qed
qed

lemma match_from_terminated:
  assumes "terminated list_a" and "terminated list_b" and "entry_start list_a a"
  shows "match_from list_a list_b a =
           Some (\<exists>entry_a \<in> entries_from list_a a. \<exists>entry_b \<in> entries_from list_b 0.
                   entries_match entry_a entry_b)"
  using assms(3)
proof (induction "length list_a - a" arbitrary: a rule: less_induct)
  case less
  have inner: "\<And>entry_a v. match_entry entry_a v list_b 0 =
      Some (\<exists>entry_b \<in> entries_from list_b 0. entry_hit entry_a v entry_b)"
    by (rule match_entry_terminated [OF assms(2)]) (simp add: entry_start_def)
  show ?case
  proof (cases "a < length list_a")
    case False
    then show ?thesis
      by (subst match_from.simps) (simp add: entries_from_end)
  next
    case True
    note s = entries_step [OF assms(1) True less.prems]
    from s True have d: "length list_a - next_entry list_a a < length list_a - a" by arith
    from s have st: "entry_start list_a (next_entry list_a a)" by simp
    note ih = less.hyps [OF d st]
    from s have e: "entries_from list_a a =
        insert (entry_at list_a a) (entries_from list_a (next_entry list_a a))" by simp
    show ?thesis
      by (subst match_from.simps) (auto simp: True e ih inner Let_def entries_match_def)
  qed
qed

lemma match_hardware_ids_terminated:
  assumes "terminated list_a" and "terminated list_b"
  shows "match_hardware_ids list_a list_b =
           Some (\<exists>entry_a \<in> entries_from list_a 0. \<exists>entry_b \<in> entries_from list_b 0.
                   entries_match entry_a entry_b)"
  unfolding match_hardware_ids_def
  by (rule match_from_terminated [OF assms]) (simp add: entry_start_def)

lemma scan_literal_prefix: "scan_literal l s = Some r \<Longrightarrow> s = l @ r"
  by (induction l s rule: scan_literal.induct) (auto split: if_splits)

lemma parsed_has_backslash:
  assumes "get_vid_pid_rev e \<noteq> None"
  shows "has_backslash e"
proof -
  from assms obtain r where "scan_literal (wstr ''HID'' @ 0x5C # wstr ''VID_'') e = Some r"
    by (auto simp: get_vid_pid_rev_def split: option.splits)
  from scan_literal_prefix [OF this] show ?thesis
    by (simp add: has_backslash_def)
qed

lemma entries_match_sym:
  assumes "entries_match x y"
  shows "entries_match y x"
proof -
  from assms have bx: "has_backslash x"
    and h: "x = y \<or> (get_vid_pid_rev x \<noteq> None \<and> get_vid_pid_rev x = get_vid_pid_rev y)"
    by (simp_all add: entries_match_def entry_hit_def)
  from h show ?thesis
  proof
    assume "x = y"
    with bx show ?thesis by (simp add: entries_match_def entry_hit_def)
  next
    assume p: "get_vid_pid_rev x \<noteq> None \<and> get_vid_pid_rev x = get_vid_pid_rev y"
    from p have nn: "get_vid_pid_rev x \<noteq> None"
      and eq: "get_vid_pid_rev x = get_vid_pid_rev y" by blast+
    from nn have ny: "get_vid_pid_rev y \<noteq> None" unfolding eq .
    then have "has_backslash y" by (rule parsed_has_backslash)
    with ny eq show ?thesis by (simp add: entries_match_def entry_hit_def)
  qed
qed

text \<open>
  On two hardware-id lists in which every entry ends with a NUL, \<open>match_hardware_ids\<close>
  returns, and it returns the same result with the two lists exchanged: on such lists the
  matching relation is symmetric.
\<close>

theorem match_hardware_ids_symmetric:
  assumes "terminated list_a" and "terminated list_b"
  shows "match_hardware_ids list_a list_b \<noteq> None \<and>
         match_hardware_ids list_b list_a = match_hardware_ids list_a list_b"
proof -
  have "(\<exists>entry_b \<in> entries_from list_b 0. \<exists>entry_a \<in> entries_from list_a 0.
           entries_match entry_b entry_a) \<longleftrightarrow>
        (\<exists>entry_a \<in> entries_from list_a 0. \<exists>entry_b \<in> entries_from list_b 0.
           entries_match entry_a entry_b)"
  proof
    assume "\<exists>entry_b \<in> entries_from list_b 0. \<exists>entry_a \<in> entries_from list_a 0.
           entries_match entry_b entry_a"
    then obtain eb ea where m: "eb \<in> entries_from list_b 0" "ea \<in> entries_from list_a 0"
      "entries_match eb ea" by blast
    from entries_match_sym [OF m(3)] m(1,2)
    show "\<exists>entry_a \<in> entries_from list_a 0. \<exists>entry_b \<in> entries_from list_b 0.
           entries_match entry_a entry_b" by blast
  next
    assume "\<exists>entry_a \<in> entries_from list_a 0. \<exists>entry_b \<in> entries_from list_b 0.
           entries_match entry_a entry_b"
    then obtain ea eb where m: "ea \<in> entries_from list_a 0" "eb \<in> entries_from list_b 0"
      "entries_match ea eb" by blast
    from entries_match_sym [OF m(3)] m(1,2)
    show "\<exists>entry_b \<in> entries_from list_b 0. \<exists>entry_a \<in> entries_from list_a 0.
           entries_match entry_b entry_a" by blast
  qed
  then show ?thesis
    by (simp add: match_hardware_ids_terminated [OF assms]
        match_hardware_ids_terminated [OF assms(2,1)])
qed

lemma sample_lists_terminated:
  "terminated (vid_1_pid_2_rev_3 @ [0] @ vid_1_pid_2_rev_3_mi_00 @ [0])"
  "terminated (vid_1_pid_2_rev_3_mi_00 @ [0])"
  by (simp_all add: terminated_def)

theorem match_hardware_ids_symmetric_witness:
  "terminated (vid_1_pid_2_rev_3 @ [0] @ vid_1_pid_2_rev_3_mi_00 @ [0]) \<and>
   terminated (vid_1_pid_2_rev_3_mi_00 @ [0]) \<and>
   match_hardware_ids (vid_1_pid_2_rev_3 @ [0] @ vid_1_pid_2_rev_3_mi_00 @ [0])
     (vid_1_pid_2_rev_3_mi_00 @ [0]) = Some True \<and>
   match_hardware_ids (vid_1_pid_2_rev_3_mi_00 @ [0])
     (vid_1_pid_2_rev_3 @ [0] @ vid_1_pid_2_rev_3_mi_00 @ [0]) = Some True"
  using match_hardware_ids_symmetric [OF sample_lists_terminated]
    sample_lists_terminated two_entry_list_matches
  by simp

text \<open>
  The inner loop does not return when the entry at its position is no hit and the next
  position is the same position.
\<close>

lemma match_entry_stuck:
  assumes "b < length list_b"
    and "\<not> entry_hit entry_a v (entry_at list_b b)"
    and "next_entry list_b b = b"
  shows "match_entry entry_a v list_b b = None"
proof (rule ccontr)
  assume "match_entry entry_a v list_b b \<noteq> None"
  then obtain y where y: "match_entry entry_a v list_b b = Some y" by auto
  have "\<not> (entry_a = entry_a \<and> v = v \<and> list_b = list_b \<and> b = b)"
  proof (rule match_entry.raw_induct
      [where P = "\<lambda>ea va lb bb r. \<not> (ea = entry_a \<and> va = v \<and> lb = list_b \<and> bb = b)",
       OF _ y], goal_cases)
    case (1 f ea va lb bb r)
    show ?case
    proof
      assume eq: "ea = entry_a \<and> va = v \<and> lb = list_b \<and> bb = b"
      with 1(2) assms have "f entry_a v list_b b = Some r"
        by (auto simp: Let_def entry_hit_def)
      from 1(1) [OF this] show False by simp
    qed
  qed
  then show False by simp
qed

text \<open>
  C6. The matcher at a list whose last entry has no NUL: \<open>find\<close> returns \<open>npos\<close>, the next
  position \<open>npos + 1\<close> is 0 and the inner loop starts over at the first entry, for ever.
  For the two sample lists \<open>match_hardware_ids\<close> returns true in the one order and does not
  return in the other, where symmetry asks for true.
\<close>

theorem match_hardware_ids_asymmetric:
  "match_hardware_ids unterminated_id two_ids = Some True \<and>
   match_hardware_ids two_ids unterminated_id = None"
proof
  show "match_hardware_ids unterminated_id two_ids = Some True"
    by code_simp
  have e: "entry_at two_ids 0 = wstr ''C'' @ 0x5C # wstr ''D''"
    "has_backslash (wstr ''C'' @ 0x5C # wstr ''D'')"
    by code_simp+
  have ne: "two_ids \<noteq> []" by (simp add: two_ids_def)
  have s: "match_entry (wstr ''C'' @ 0x5C # wstr ''D'')
      (get_vid_pid_rev (wstr ''C'' @ 0x5C # wstr ''D'')) unterminated_id 0 = None"
  proof (rule match_entry_stuck)
    show "0 < length unterminated_id" by code_simp
    show "\<not> entry_hit (wstr ''C'' @ 0x5C # wstr ''D'')
        (get_vid_pid_rev (wstr ''C'' @ 0x5C # wstr ''D'')) (entry_at unterminated_id 0)"
      by code_simp
    show "next_entry unterminated_id 0 = 0" by code_simp
  qed
  show "match_hardware_ids two_ids unterminated_id = None"
    unfolding match_hardware_ids_def
    by (subst match_from.simps) (simp add: e s ne Let_def)
qed

subsection \<open>The connection handshake\<close>

lemma deliver_append: "deliver s (xs @ ys) = deliver (deliver s xs) ys"
  by (simp add: deliver_def)

lemma deliver_Nil: "deliver s [] = s"
  by (simp add: deliver_def)

lemma deliver_Cons: "deliver s (x # xs) = deliver (on_signal s x) xs"
  by (simp add: deliver_def)

lemma deliver_initializing:
  "deliver initializing sigs =
     (if \<exists>s \<in> set sigs. terminal s then disconnected
      else if ready_signal \<in> set sigs then connected else initializing)"
proof (induction sigs rule: rev_induct)
  case Nil
  show ?case by (simp add: deliver_Nil)
next
  case (snoc x xs)
  show ?case
    unfolding deliver_append snoc.IH
    by (cases x) (auto simp: deliver_Cons deliver_Nil ready_signal_def)
qed

lemma seen_Suc: "seen env (Suc n) = seen env n @ env (Suc n)"
  by (simp add: seen_def)

lemma seen_prefix: "m \<le> k \<Longrightarrow> \<exists>rest. seen env k = seen env m @ rest"
proof (induction k)
  case 0
  then show ?case by simp
next
  case (Suc k)
  show ?case
  proof (cases "m = Suc k")
    case True
    then show ?thesis by simp
  next
    case False
    with Suc.prems have "m \<le> k" by simp
    from Suc.IH [OF this] obtain rest where "seen env k = seen env m @ rest" ..
    then have "seen env (Suc k) = seen env m @ (rest @ env (Suc k))"
      by (simp add: seen_Suc)
    then show ?thesis ..
  qed
qed

lemma state_at_0: "state_at env 0 = deliver initializing (env 0)"
  by (simp add: state_at_def seen_def)

lemma state_at_Suc: "state_at env (Suc n) = deliver (state_at env n) (env (Suc n))"
  by (simp add: state_at_def seen_Suc deliver_append)

lemma create_wait_spec:
  assumes "s = state_at env i" and "i \<le> 30"
  shows "\<exists>n. create_wait env i s = (n, state_at env n) \<and> i \<le> n \<and> n \<le> 30 \<and>
             (\<forall>k. i \<le> k \<and> k < n \<longrightarrow> state_at env k = initializing) \<and>
             (n < 30 \<longrightarrow> state_at env n \<noteq> initializing)"
  using assms
proof (induction env i s rule: create_wait.induct)
  case (1 env i s)
  show ?case
  proof (cases "s = initializing \<and> i < 30")
    case True
    have "deliver s (env (Suc i)) = state_at env (Suc i)"
      using "1.prems"(1) by (simp add: state_at_Suc)
    moreover from True have "Suc i \<le> 30" by simp
    ultimately obtain n where n: "create_wait env (Suc i) (deliver s (env (Suc i))) = (n, state_at env n)"
      "Suc i \<le> n" "n \<le> 30"
      "\<forall>k. Suc i \<le> k \<and> k < n \<longrightarrow> state_at env k = initializing"
      "n < 30 \<longrightarrow> state_at env n \<noteq> initializing"
      using "1.IH" [OF True] by blast
    have "\<forall>k. i \<le> k \<and> k < n \<longrightarrow> state_at env k = initializing"
    proof (intro allI impI)
      fix k assume k: "i \<le> k \<and> k < n"
      show "state_at env k = initializing"
      proof (cases "k = i")
        case True
        with \<open>s = initializing \<and> i < 30\<close> "1.prems"(1) show ?thesis by simp
      next
        case False
        with k n(4) show ?thesis by simp
      qed
    qed
    with n True show ?thesis
      by (subst create_wait.simps) auto
  next
    case False
    with "1.prems" show ?thesis
      by (subst create_wait.simps) auto
  qed
qed

lemma create_spec:
  "\<exists>n\<le>30. (\<forall>k<n. state_at env k = initializing) \<and>
      (n < 30 \<longrightarrow> state_at env n \<noteq> initializing) \<and>
      create env VirtualDeviceImpl_new =
        (state_at env (Suc n) = connected,
         VirtualDeviceImpl_new\<lparr>m_state := state_at env (Suc n)\<rparr>)"
proof -
  have s0: "deliver (m_state VirtualDeviceImpl_new) (env 0) = state_at env 0"
    by (simp add: VirtualDeviceImpl_new_def state_at_0)
  have "(0 :: nat) \<le> 30" by simp
  from create_wait_spec [OF refl this, of env]
  obtain n where n: "create_wait env 0 (state_at env 0) = (n, state_at env n)" "n \<le> 30"
    "\<forall>k. 0 \<le> k \<and> k < n \<longrightarrow> state_at env k = initializing"
    "n < 30 \<longrightarrow> state_at env n \<noteq> initializing"
    by blast
  have c: "create env VirtualDeviceImpl_new =
        (state_at env (Suc n) = connected,
         VirtualDeviceImpl_new\<lparr>m_state := state_at env (Suc n)\<rparr>)"
    unfolding create_def s0 n(1) by (simp add: state_at_Suc Let_def)
  from n(3) have "\<forall>k<n. state_at env k = initializing" by simp
  with n(2,4) c show ?thesis by blast
qed

lemma terminal_first_never_connected:
  assumes "seen env k = pre @ t # post" and "terminal t" and "ready_signal \<notin> set pre"
  shows "state_at env m \<noteq> connected"
proof (cases "k \<le> m")
  case True
  from seen_prefix [OF this] obtain rest where "seen env m = seen env k @ rest" ..
  with assms(1) have "t \<in> set (seen env m)" by simp
  with assms(2) show ?thesis
    by (auto simp: state_at_def deliver_initializing)
next
  case False
  then have "m \<le> k" by simp
  from seen_prefix [OF this] obtain rest where "seen env k = seen env m @ rest" ..
  with assms(1) have "seen env m @ rest = pre @ t # post" by simp
  then obtain us where "seen env m = pre @ us \<and> us @ rest = t # post \<or>
      seen env m @ us = pre \<and> rest = us @ t # post"
    by (auto simp: append_eq_append_conv2)
  then show ?thesis
  proof
    assume a: "seen env m = pre @ us \<and> us @ rest = t # post"
    show ?thesis
    proof (cases us)
      case Nil
      with a assms(3) show ?thesis by (auto simp: state_at_def deliver_initializing)
    next
      case (Cons u us')
      with a have "t \<in> set (seen env m)" by simp
      with assms(2) show ?thesis by (auto simp: state_at_def deliver_initializing)
    qed
  next
    assume "seen env m @ us = pre \<and> rest = us @ t # post"
    with assms(3) have "ready_signal \<notin> set (seen env m)" by auto
    then show ?thesis by (auto simp: state_at_def deliver_initializing)
  qed
qed

text \<open>
  C3, as amended. On a new object \<open>create\<close> sleeps at most 30 times, stops sleeping at the
  first read of the state that is not Initializing, and returns true if and only if the
  state it reads last is Connected, that is, if and only if a ready signal and no terminal
  signal has been handled by then. It returns false when no ready signal is handled within
  the 31 intervals of the wait, and it returns false when a terminal signal is handled
  before any ready signal.
\<close>

theorem create_result:
  "(\<exists>n\<le>30. (\<forall>k<n. state_at env k = initializing) \<and>
      (n < 30 \<longrightarrow> state_at env n \<noteq> initializing) \<and>
      create env VirtualDeviceImpl_new =
        (state_at env (Suc n) = connected,
         VirtualDeviceImpl_new\<lparr>m_state := state_at env (Suc n)\<rparr>)) \<and>
   (state_at env m = connected \<longleftrightarrow>
      ready_signal \<in> set (seen env m) \<and> (\<forall>s \<in> set (seen env m). \<not> terminal s)) \<and>
   (ready_signal \<notin> set (seen env 31) \<longrightarrow> \<not> fst (create env VirtualDeviceImpl_new)) \<and>
   (seen env k = pre @ t # post \<and> terminal t \<and> ready_signal \<notin> set pre \<longrightarrow>
      \<not> fst (create env VirtualDeviceImpl_new))"
proof (intro conjI impI)
  show "\<exists>n\<le>30. (\<forall>k<n. state_at env k = initializing) \<and>
      (n < 30 \<longrightarrow> state_at env n \<noteq> initializing) \<and>
      create env VirtualDeviceImpl_new =
        (state_at env (Suc n) = connected,
         VirtualDeviceImpl_new\<lparr>m_state := state_at env (Suc n)\<rparr>)"
    by (rule create_spec)
  show "state_at env m = connected \<longleftrightarrow>
      ready_signal \<in> set (seen env m) \<and> (\<forall>s \<in> set (seen env m). \<not> terminal s)"
    by (auto simp: state_at_def deliver_initializing)
next
  assume a: "ready_signal \<notin> set (seen env 31)"
  from create_spec [of env] obtain n where n: "n \<le> 30"
    "create env VirtualDeviceImpl_new =
        (state_at env (Suc n) = connected,
         VirtualDeviceImpl_new\<lparr>m_state := state_at env (Suc n)\<rparr>)" by blast
  from n(1) have "Suc n \<le> 31" by simp
  from seen_prefix [OF this] obtain rest where "seen env 31 = seen env (Suc n) @ rest" ..
  with a have "ready_signal \<notin> set (seen env (Suc n))" by simp
  then have "state_at env (Suc n) \<noteq> connected"
    by (auto simp: state_at_def deliver_initializing)
  with n(2) show "\<not> fst (create env VirtualDeviceImpl_new)" by simp
next
  assume a: "seen env k = pre @ t # post \<and> terminal t \<and> ready_signal \<notin> set pre"
  from create_spec [of env] obtain n where n:
    "create env VirtualDeviceImpl_new =
        (state_at env (Suc n) = connected,
         VirtualDeviceImpl_new\<lparr>m_state := state_at env (Suc n)\<rparr>)" by blast
  from a have "state_at env (Suc n) \<noteq> connected"
    by (intro terminal_first_never_connected [of env k pre t post]) simp_all
  with n show "\<not> fst (create env VirtualDeviceImpl_new)" by simp
qed

lemma create_timeout_value: "create (\<lambda>k. []) VirtualDeviceImpl_new = (False, VirtualDeviceImpl_new)"
  by code_simp

lemma create_ready_value:
  "create ready_in_third_sleep VirtualDeviceImpl_new =
     (True, VirtualDeviceImpl_new\<lparr>m_state := connected\<rparr>)"
  by code_simp

lemma create_fails_value:
  "create connect_fails VirtualDeviceImpl_new =
     (False, VirtualDeviceImpl_new\<lparr>m_state := disconnected\<rparr>)"
  by code_simp

theorem create_result_witness:
  "\<not> fst (create (\<lambda>k. []) VirtualDeviceImpl_new) \<and>
   \<not> fst (create connect_fails VirtualDeviceImpl_new) \<and>
   fst (create ready_in_third_sleep VirtualDeviceImpl_new) \<and>
   state_at ready_in_third_sleep 3 = connected"
proof -
  have 1: "ready_signal \<notin> set (seen (\<lambda>k. []) 31)" by (simp add: seen_def)
  have 2: "seen connect_fails 2 = [] @ sig_connect_failed # [ready_signal] \<and>
      terminal sig_connect_failed \<and> ready_signal \<notin> set []"
    by (simp add: seen_def connect_fails_def upt_rec)
  have 3: "ready_signal \<in> set (seen ready_in_third_sleep 3) \<and>
      (\<forall>s \<in> set (seen ready_in_third_sleep 3). \<not> terminal s)"
    by (simp add: seen_def ready_in_third_sleep_def upt_rec ready_signal_def)
  from create_result [of "\<lambda>k. []" 0 0 "[]" sig_closed "[]"] 1
  have a: "\<not> fst (create (\<lambda>k. []) VirtualDeviceImpl_new)" by blast
  from create_result [of connect_fails 0 2 "[]" sig_connect_failed "[ready_signal]"] 2
  have b: "\<not> fst (create connect_fails VirtualDeviceImpl_new)" by blast
  from create_result [of ready_in_third_sleep 3 0 "[]" sig_closed "[]"] 3
  have c: "state_at ready_in_third_sleep 3 = connected" by blast
  from a b c create_ready_value show ?thesis by simp
qed

text \<open>
  C3 as stated fails: when the ready signal and a close arrive during the same sleep, the state
  reaches Connected within the wait, and \<open>create\<close> returns false.
\<close>

theorem create_reached_connected_counterexample:
  "deliver initializing (take 2 (seen ready_then_closed 1)) = connected \<and>
   \<not> fst (create ready_then_closed VirtualDeviceImpl_new)"
  by code_simp

subsection \<open>The device roster\<close>

lemma zip_erase_at:
  assumes "length xs = length ys"
  shows "zip (erase_at i xs) (erase_at i ys) = erase_at i (zip xs ys)"
  using assms by (simp add: erase_at_def take_zip drop_zip)

lemma take_erase_at: "take i (erase_at i xs) = take i xs"
  by (simp add: erase_at_def min_def)

lemma drop_erase_at: "i < length xs \<Longrightarrow> drop i (erase_at i xs) = drop (Suc i) xs"
  by (simp add: erase_at_def min_def)

lemma length_erase_at: "i < length xs \<Longrightarrow> length (erase_at i xs) = length xs - 1"
  by (simp add: erase_at_def)

lemma apply_device_filters_from_spec:
  assumes "roster_wf st"
  shows "\<exists>st'. apply_device_filters_from ev i st = Some st' \<and> roster_wf st' \<and>
           m_grab_filters st' = m_grab_filters st \<and>
           m_interception st' = m_interception st \<and>
           captured st' = take i (captured st) @
             filter (grabbed ev (m_grab_filters st)) (drop i (captured st)) \<and>
           ignored st' = ignored st @
             filter (\<lambda>e. \<not> grabbed ev (m_grab_filters st) e) (drop i (captured st))"
  using assms
proof (induction ev i st rule: apply_device_filters_from.induct)
  case (1 ev i st)
  let ?g = "grabbed ev (m_grab_filters st)"
  from "1.prems" have len: "length (m_device_handles st) = length (m_device_descs st)"
    "length (m_ignored_device_handles st) = length (m_ignored_device_descs st)"
    by (simp_all add: roster_wf_def)
  show ?case
  proof (cases "i < length (m_device_descs st)")
    case False
    with len "1.prems" show ?thesis
      by (subst apply_device_filters_from.simps) (simp add: captured_def)
  next
    case True
    with len have ih: "i < length (m_device_handles st)" by simp
    from True len have ic: "i < length (captured st)" by (simp add: captured_def)
    have e: "captured st ! i = (m_device_handles st ! i, m_device_descs st ! i)"
      using True ih by (simp add: captured_def)
    have d: "drop i (captured st) = captured st ! i # drop (Suc i) (captured st)"
      using ic by (simp add: Cons_nth_drop_Suc)
    show ?thesis
    proof (cases "?g (captured st ! i)")
      case True
      then have g: "ev (m_grab_filters st) (desc_name (m_device_descs st ! i))
          (desc_id (m_device_descs st ! i)) True"
        by (simp add: grabbed_def e)
      from "1.IH"(2) [OF \<open>i < length (m_device_descs st)\<close> ih refl refl refl _ "1.prems"] g
      obtain st' where st': "apply_device_filters_from ev (Suc i) st = Some st'" "roster_wf st'"
        "m_grab_filters st' = m_grab_filters st" "m_interception st' = m_interception st"
        "captured st' = take (Suc i) (captured st) @ filter ?g (drop (Suc i) (captured st))"
        "ignored st' = ignored st @ filter (\<lambda>e. \<not> ?g e) (drop (Suc i) (captured st))"
        by auto
      have "apply_device_filters_from ev i st = Some st'"
        using st'(1) g \<open>i < length (m_device_descs st)\<close> ih
        by (subst apply_device_filters_from.simps) (simp add: Let_def)
      moreover have "take (Suc i) (captured st) = take i (captured st) @ [captured st ! i]"
        using ic by (simp add: take_Suc_conv_app_nth)
      ultimately show ?thesis
        using st' True by (simp add: d)
    next
      case False
      then have g: "\<not> ev (m_grab_filters st) (desc_name (m_device_descs st ! i))
          (desc_id (m_device_descs st ! i)) True"
        by (simp add: grabbed_def e)
      let ?st2 = "st\<lparr>m_ignored_device_handles := m_ignored_device_handles st @ [m_device_handles st ! i],
                       m_ignored_device_descs := m_ignored_device_descs st @ [m_device_descs st ! i],
                       m_device_handles := erase_at i (m_device_handles st),
                       m_device_descs := erase_at i (m_device_descs st)\<rparr>"
      have wf2: "roster_wf ?st2"
        using len True ih by (simp add: roster_wf_def length_erase_at)
      have c2: "captured ?st2 = erase_at i (captured st)"
        using len by (simp add: captured_def zip_erase_at)
      have i2: "ignored ?st2 = ignored st @ [captured st ! i]"
        using len by (simp add: ignored_def e)
      from "1.IH"(1) [OF \<open>i < length (m_device_descs st)\<close> ih refl refl refl _ wf2] g
      obtain st' where st': "apply_device_filters_from ev i ?st2 = Some st'" "roster_wf st'"
        "m_grab_filters st' = m_grab_filters ?st2" "m_interception st' = m_interception ?st2"
        "captured st' = take i (captured ?st2) @
           filter (grabbed ev (m_grab_filters ?st2)) (drop i (captured ?st2))"
        "ignored st' = ignored ?st2 @
           filter (\<lambda>e. \<not> grabbed ev (m_grab_filters ?st2) e) (drop i (captured ?st2))"
        by auto
      have "apply_device_filters_from ev i st = Some st'"
        using st'(1) g \<open>i < length (m_device_descs st)\<close> ih
        by (subst apply_device_filters_from.simps) (simp add: Let_def)
      then show ?thesis
        using st'(2-6) False ic
        by (simp add: c2 i2 d take_erase_at drop_erase_at)
    qed
  qed
qed

lemma apply_device_filters_spec:
  assumes "roster_wf st" and "ignored st = []"
  shows "\<exists>st'. apply_device_filters ev st = Some st' \<and>
           m_grab_filters st' = m_grab_filters st \<and> m_interception st' = m_interception st \<and>
           partitions ev (captured st) st'"
proof -
  from apply_device_filters_from_spec [OF assms(1), of ev 0]
  obtain st' where "apply_device_filters_from ev 0 st = Some st'" "roster_wf st'"
    "m_grab_filters st' = m_grab_filters st" "m_interception st' = m_interception st"
    "captured st' = take 0 (captured st) @
       filter (grabbed ev (m_grab_filters st)) (drop 0 (captured st))"
    "ignored st' = ignored st @
       filter (\<lambda>e. \<not> grabbed ev (m_grab_filters st) e) (drop 0 (captured st))"
    by blast
  with assms(2) show ?thesis
    by (simp add: apply_device_filters_def partitions_def)
qed

lemma reset_device_filters_spec:
  assumes "roster_wf st"
  shows "roster_wf (reset_device_filters st)"
    and "captured (reset_device_filters st) = known st"
    and "ignored (reset_device_filters st) = []"
    and "m_device_handles (reset_device_filters st) = map fst (known st)"
    and "length (m_device_descs (reset_device_filters st)) = length (known st)"
  using assms
  by (simp_all add: roster_wf_def reset_device_filters_def captured_def ignored_def known_def)

lemma index_of_less: "index_of x xs = Some i \<Longrightarrow> i < length xs"
  by (induction xs arbitrary: i) (auto split: if_splits)

lemma set_grab_filters_spec:
  assumes "roster_wf st"
  shows "\<exists>st'. set_grab_filters ev filters st = Some st' \<and> m_grab_filters st' = filters \<and>
           m_interception st' = m_interception st \<and> partitions ev (known st) st'"
proof -
  let ?st1 = "(reset_device_filters st)\<lparr>m_grab_filters := filters\<rparr>"
  note r = reset_device_filters_spec [OF assms]
  have wf: "roster_wf ?st1" using r(1) by (simp add: roster_wf_def)
  have i: "ignored ?st1 = []" using r(3) by (simp add: ignored_def)
  have c: "captured ?st1 = known st" using r(2) by (simp add: captured_def)
  have m: "m_interception ?st1 = m_interception st" by (simp add: reset_device_filters_def)
  from apply_device_filters_spec [OF wf i, of ev] show ?thesis
    by (auto simp: set_grab_filters_def c m)
qed

lemma on_device_removed_spec:
  assumes "roster_wf st"
  shows "\<exists>st'. on_device_removed ev device st = Some st' \<and>
           m_grab_filters st' = m_grab_filters st \<and> m_interception st' = m_interception st \<and>
           partitions ev (remove_device device (known st)) st'"
proof -
  let ?st1 = "reset_device_filters st"
  note r = reset_device_filters_spec [OF assms]
  have f: "m_grab_filters ?st1 = m_grab_filters st" by (simp add: reset_device_filters_def)
  have m: "m_interception ?st1 = m_interception st" by (simp add: reset_device_filters_def)
  show ?thesis
  proof (cases "device \<noteq> 0 \<and> index_of device (map fst (known st)) \<noteq> None")
    case False
    then have idx: "\<not> get_device_index ?st1 device \<ge> 0"
      by (auto simp: get_device_index_def r(4))
    from False have rm: "remove_device device (known st) = known st"
      by (auto simp: remove_device_def)
    from apply_device_filters_spec [OF r(1) r(3), of ev] idx show ?thesis
      by (auto simp: on_device_removed_def Let_def rm r(2) f m)
  next
    case True
    then obtain i where i: "index_of device (map fst (known st)) = Some i" by auto
    from index_of_less [OF i] have il: "i < length (known st)" by simp
    from True i have idx: "get_device_index ?st1 device = int i"
      by (simp add: get_device_index_def r(4))
    from True i have rm: "remove_device device (known st) = erase_at i (known st)"
      by (simp add: remove_device_def)
    let ?st2 = "?st1\<lparr>m_device_handles := erase_at i (m_device_handles ?st1),
                     m_device_descs := erase_at i (m_device_descs ?st1)\<rparr>"
    from r(1) have len: "length (m_device_handles ?st1) = length (m_device_descs ?st1)"
      by (simp add: roster_wf_def)
    have wf: "roster_wf ?st2"
      using r(1) il r(5) by (simp add: roster_wf_def length_erase_at)
    have ig: "ignored ?st2 = []" using r(3) by (simp add: ignored_def)
    have c: "captured ?st2 = erase_at i (known st)"
      using zip_erase_at [OF len, of i] r(2) by (simp add: captured_def)
    have f2: "m_grab_filters ?st2 = m_grab_filters st" using f by simp
    have m2: "m_interception ?st2 = m_interception st" using m by simp
    from apply_device_filters_spec [OF wf ig, of ev] idx il r(5) show ?thesis
      by (auto simp: on_device_removed_def Let_def rm c f2 m2)
  qed
qed

lemma roster_fields_interception [simp]:
  "captured (st\<lparr>m_interception := x\<rparr>) = captured st"
  "ignored (st\<lparr>m_interception := x\<rparr>) = ignored st"
  "roster_wf (st\<lparr>m_interception := x\<rparr>) = roster_wf st"
  by (simp_all add: captured_def ignored_def roster_wf_def)

lemma partitions_interception [simp]:
  "partitions ev devices (st\<lparr>m_interception := x\<rparr>) = partitions ev devices st"
  by (simp add: partitions_def)

lemma on_device_attached_spec:
  assumes "roster_wf st" and "attach_resolves q"
  shows "\<exists>st3. m_grab_filters st3 = m_grab_filters st \<and> m_interception st3 = m_interception st \<and>
           partitions ev (known st @ [(device, attach_desc w2u q)]) st3 \<and>
           (on_device_attached ev w2u hw q device st = None \<or>
            (\<exists>x. on_device_attached ev w2u hw q device st = Some (st3\<lparr>m_interception := x\<rparr>)))"
proof -
  let ?st1 = "reset_device_filters st"
  let ?st2 = "?st1\<lparr>m_device_handles := m_device_handles ?st1 @ [device],
                   m_device_descs := m_device_descs ?st1 @ [attach_desc w2u q]\<rparr>"
  note r = reset_device_filters_spec [OF assms(1)]
  have wf: "roster_wf ?st2" using r(1) by (simp add: roster_wf_def)
  have ig: "ignored ?st2 = []" using r(3) by (simp add: ignored_def)
  have c: "captured ?st2 = known st @ [(device, attach_desc w2u q)]"
    using r(1,2) by (simp add: captured_def roster_wf_def)
  have f: "m_grab_filters ?st2 = m_grab_filters st" "m_interception ?st2 = m_interception st"
    by (simp_all add: reset_device_filters_def)
  from apply_device_filters_spec [OF wf ig, of ev]
  obtain st3 where st3: "apply_device_filters ev ?st2 = Some st3"
    "m_grab_filters st3 = m_grab_filters st" "m_interception st3 = m_interception st"
    "partitions ev (known st @ [(device, attach_desc w2u q)]) st3"
    by (auto simp: c f)
  have same: "\<exists>x. st3 = st3\<lparr>m_interception := x\<rparr>"
    by (rule exI [of _ "m_interception st3"]) simp
  have "on_device_attached ev w2u hw q device st = None \<or>
        (\<exists>x. on_device_attached ev w2u hw q device st = Some (st3\<lparr>m_interception := x\<rparr>))"
    using assms(2) st3(1) same
    by (auto simp: on_device_attached_def attach_resolves_def attach_desc_def Let_def
        split: option.splits)
  with st3 show ?thesis by blast
qed

lemma on_device_attached_no_interception:
  assumes "roster_wf st" and "attach_resolves q" and "m_interception st = None"
  shows "\<exists>st'. on_device_attached ev w2u hw q device st = Some st'"
proof -
  let ?st1 = "reset_device_filters st"
  let ?st2 = "?st1\<lparr>m_device_handles := m_device_handles ?st1 @ [device],
                   m_device_descs := m_device_descs ?st1 @ [attach_desc w2u q]\<rparr>"
  note r = reset_device_filters_spec [OF assms(1)]
  have wf: "roster_wf ?st2" using r(1) by (simp add: roster_wf_def)
  have ig: "ignored ?st2 = []" using r(3) by (simp add: ignored_def)
  have f: "m_interception ?st2 = None" using assms(3) by (simp add: reset_device_filters_def)
  from apply_device_filters_spec [OF wf ig, of ev]
  obtain st3 where st3: "apply_device_filters ev ?st2 = Some st3" "m_interception st3 = None"
    by (auto simp: f)
  then show ?thesis
    using assms(2)
    by (auto simp: on_device_attached_def attach_resolves_def attach_desc_def Let_def)
qed

lemma on_device_attached_unresolved:
  "\<not> attach_resolves q \<Longrightarrow> on_device_attached ev w2u hw q device st = Some st"
  by (auto simp: on_device_attached_def attach_resolves_def)

lemma partitions_facts:
  assumes "partitions ev devices st"
  shows "set (captured st) \<union> set (ignored st) = set devices"
    and "set (captured st) \<inter> set (ignored st) = {}"
    and "\<forall>e \<in> set devices. (e \<in> set (captured st)) = grabbed ev (m_grab_filters st) e"
    and "length (captured st) + length (ignored st) = length devices"
  using assms by (auto simp: partitions_def sum_length_filter_compl)

text \<open>
  With NUL-terminated hardware-id lists the part of \<open>on_device_attached\<close> that works on the
  capture object returns.
\<close>

lemma get_device_handle_by_hardware_id_returns:
  assumes "\<forall>(handle, hardware_ids) \<in> set hs. terminated hardware_ids" and "terminated ids"
  shows "\<exists>h. get_device_handle_by_hardware_id hs ids = Some h"
  using assms(1)
proof (induction hs)
  case Nil
  show ?case by simp
next
  case (Cons e hs)
  obtain handle hardware_ids where e: "e = (handle, hardware_ids)" by (cases e)
  with Cons.prems have t: "terminated hardware_ids" by simp
  from match_hardware_ids_terminated [OF t assms(2)]
  obtain r where r: "match_hardware_ids hardware_ids ids = Some r" by blast
  from Cons.prems have "\<forall>(handle, hardware_ids) \<in> set hs. terminated hardware_ids" by simp
  from Cons.IH [OF this] obtain h where "get_device_handle_by_hardware_id hs ids = Some h" ..
  with r e show ?case by (cases r) simp_all
qed

lemma get_device_handle_returns:
  assumes "hardware_ids_terminated hw ic"
  shows "\<exists>h ic'. get_device_handle hw device ic = Some (h, ic') \<and>
           m_handle_with_hardware_ids ic' = m_handle_with_hardware_ids ic"
proof -
  from assms have "\<forall>(handle, hardware_ids) \<in> set (m_handle_with_hardware_ids ic).
      terminated hardware_ids" and "terminated (hw device)"
    by (simp_all add: hardware_ids_terminated_def)
  from get_device_handle_by_hardware_id_returns [OF this]
  obtain h where "get_device_handle_by_hardware_id (m_handle_with_hardware_ids ic) (hw device)
      = Some h" ..
  then show ?thesis
    by (simp add: get_device_handle_def Let_def)
qed

lemma hardware_ids_terminated_cong:
  "m_handle_with_hardware_ids ic' = m_handle_with_hardware_ids ic \<Longrightarrow>
   hardware_ids_terminated hw ic' = hardware_ids_terminated hw ic"
  by (simp add: hardware_ids_terminated_def)

lemma last_resolvable_returns:
  assumes "hardware_ids_terminated hw ic"
  shows "\<exists>r ic'. last_resolvable hw lo n ic = Some (r, ic') \<and>
           m_handle_with_hardware_ids ic' = m_handle_with_hardware_ids ic"
  using assms
proof (induction n arbitrary: ic)
  case 0
  show ?case by simp
next
  case (Suc n)
  from get_device_handle_returns [OF Suc.prems, of "int (lo + Suc n)"]
  obtain h ic1 where g: "get_device_handle hw (int (lo + Suc n)) ic = Some (h, ic1)"
    "m_handle_with_hardware_ids ic1 = m_handle_with_hardware_ids ic" by blast
  from Suc.prems have "hardware_ids_terminated hw ic1"
    unfolding hardware_ids_terminated_cong [OF g(2)] .
  from Suc.IH [OF this] obtain r ic' where "last_resolvable hw lo n ic1 = Some (r, ic')"
    "m_handle_with_hardware_ids ic' = m_handle_with_hardware_ids ic1" by blast
  with g show ?case by simp
qed

lemma try_set_last_keyboard_returns:
  assumes "hardware_ids_terminated hw ic"
  shows "\<exists>ic'. try_set_last_keyboard hw ic = Some ic' \<and>
           m_handle_with_hardware_ids ic' = m_handle_with_hardware_ids ic"
proof -
  from last_resolvable_returns [OF assms, of 0 INTERCEPTION_MAX_KEYBOARD]
  obtain r ic1 where "last_resolvable hw 0 INTERCEPTION_MAX_KEYBOARD ic = Some (r, ic1)"
    "m_handle_with_hardware_ids ic1 = m_handle_with_hardware_ids ic" by blast
  then show ?thesis
    by (cases r) (simp_all add: try_set_last_keyboard_def)
qed

lemma try_set_last_mouse_returns:
  assumes "hardware_ids_terminated hw ic"
  shows "\<exists>ic'. try_set_last_mouse hw ic = Some ic' \<and>
           m_handle_with_hardware_ids ic' = m_handle_with_hardware_ids ic"
proof -
  from last_resolvable_returns [OF assms, of INTERCEPTION_MAX_KEYBOARD INTERCEPTION_MAX_MOUSE]
  obtain r ic1 where
    "last_resolvable hw INTERCEPTION_MAX_KEYBOARD INTERCEPTION_MAX_MOUSE ic = Some (r, ic1)"
    "m_handle_with_hardware_ids ic1 = m_handle_with_hardware_ids ic" by blast
  then show ?thesis
    by (cases r) (simp_all add: try_set_last_mouse_def)
qed

lemma on_device_attached_returns:
  assumes "roster_wf st" and "attach_resolves q"
    and "\<forall>ic. m_interception st = Some ic \<longrightarrow>
           hardware_ids_terminated hw ic \<and> terminated (q_hardware_ids q)"
  shows "\<exists>st'. on_device_attached ev w2u hw q device st = Some st' \<and>
           (m_interception st' = None) = (m_interception st = None) \<and>
           (\<forall>ic'. m_interception st' = Some ic' \<longrightarrow> hardware_ids_terminated hw ic')"
proof (cases "m_interception st")
  case None
  let ?st1 = "reset_device_filters st"
  let ?st2 = "?st1\<lparr>m_device_handles := m_device_handles ?st1 @ [device],
                   m_device_descs := m_device_descs ?st1 @ [attach_desc w2u q]\<rparr>"
  note r = reset_device_filters_spec [OF assms(1)]
  have wf: "roster_wf ?st2" using r(1) by (simp add: roster_wf_def)
  have ig: "ignored ?st2 = []" using r(3) by (simp add: ignored_def)
  have f: "m_interception ?st2 = None" using None by (simp add: reset_device_filters_def)
  from apply_device_filters_spec [OF wf ig, of ev]
  obtain s3 where s3: "apply_device_filters ev ?st2 = Some s3" "m_interception s3 = None"
    by (auto simp: f)
  with assms(2) have "on_device_attached ev w2u hw q device st = Some s3"
    by (auto simp: on_device_attached_def attach_resolves_def attach_desc_def Let_def)
  with s3(2) None show ?thesis by simp
next
  case (Some ic)
  with assms(3) have t: "hardware_ids_terminated hw ic" "terminated (q_hardware_ids q)"
    by simp_all
  let ?st1 = "reset_device_filters st"
  let ?st2 = "?st1\<lparr>m_device_handles := m_device_handles ?st1 @ [device],
                   m_device_descs := m_device_descs ?st1 @ [attach_desc w2u q]\<rparr>"
  note r = reset_device_filters_spec [OF assms(1)]
  have wf: "roster_wf ?st2" using r(1) by (simp add: roster_wf_def)
  have ig: "ignored ?st2 = []" using r(3) by (simp add: ignored_def)
  have f: "m_interception ?st2 = Some ic" using Some by (simp add: reset_device_filters_def)
  from apply_device_filters_spec [OF wf ig, of ev]
  obtain s3 where s3: "apply_device_filters ev ?st2 = Some s3" "m_interception s3 = Some ic"
    by (auto simp: f)
  let ?ic0 = "set_device_hardware_ids device (q_hardware_ids q) ic"
  from t have t0: "hardware_ids_terminated hw ?ic0"
    by (auto simp: hardware_ids_terminated_def set_device_hardware_ids_def)
  from try_set_last_keyboard_returns [OF t0]
  obtain ic1 where ic1: "try_set_last_keyboard hw ?ic0 = Some ic1"
    "m_handle_with_hardware_ids ic1 = m_handle_with_hardware_ids ?ic0" by blast
  from t0 have t1: "hardware_ids_terminated hw ic1"
    unfolding hardware_ids_terminated_cong [OF ic1(2)] .
  from try_set_last_mouse_returns [OF t1]
  obtain ic2 where ic2: "try_set_last_mouse hw ic1 = Some ic2"
    "m_handle_with_hardware_ids ic2 = m_handle_with_hardware_ids ic1" by blast
  from t1 have t2: "hardware_ids_terminated hw ic2"
    unfolding hardware_ids_terminated_cong [OF ic2(2)] .
  from assms(2) s3 ic1(1) ic2(1)
  have "on_device_attached ev w2u hw q device st = Some (s3\<lparr>m_interception := Some ic2\<rparr>)"
    by (auto simp: on_device_attached_def attach_resolves_def attach_desc_def Let_def)
  with t2 Some show ?thesis by simp
qed

text \<open>
  C2. On a roster whose parallel vectors have equal lengths: \<open>set_grab_filters\<close> returns with
  the new filters and with the known devices partitioned by them; \<open>on_device_removed\<close>
  returns with the known devices less the removed one, partitioned by the filters;
  \<open>on_device_attached\<close> changes nothing when a query fails; when the queries succeed and,
  in case there is a capture object, the hardware-id lists are NUL-terminated, it returns
  with the known devices and the new one partitioned by the filters, with a capture object
  if and only if there was one, whose lists are NUL-terminated again; and whenever it
  returns after successful queries the roster is partitioned in this way. A partitioned
  roster has every device in exactly one partition, in the captured one if and only if the
  filters grab it, and the union of the partitions is the set of all its devices.
\<close>

theorem roster_partition:
  assumes "roster_wf st"
  shows "(\<exists>st'. set_grab_filters ev filters st = Some st' \<and> m_grab_filters st' = filters \<and>
            m_interception st' = m_interception st \<and> partitions ev (known st) st') \<and>
         (\<exists>st'. on_device_removed ev device st = Some st' \<and>
            m_grab_filters st' = m_grab_filters st \<and> m_interception st' = m_interception st \<and>
            partitions ev (remove_device device (known st)) st') \<and>
         (\<not> attach_resolves q \<longrightarrow> on_device_attached ev w2u hw q device st = Some st) \<and>
         (attach_resolves q \<and>
          (\<forall>ic. m_interception st = Some ic \<longrightarrow>
                  hardware_ids_terminated hw ic \<and> terminated (q_hardware_ids q)) \<longrightarrow>
            (\<exists>st'. on_device_attached ev w2u hw q device st = Some st' \<and>
               m_grab_filters st' = m_grab_filters st \<and>
               partitions ev (known st @ [(device, attach_desc w2u q)]) st' \<and>
               (m_interception st' = None) = (m_interception st = None) \<and>
               (\<forall>ic'. m_interception st' = Some ic' \<longrightarrow> hardware_ids_terminated hw ic'))) \<and>
         (attach_resolves q \<and> on_device_attached ev w2u hw q device st = Some st' \<longrightarrow>
            m_grab_filters st' = m_grab_filters st \<and>
            partitions ev (known st @ [(device, attach_desc w2u q)]) st') \<and>
         (partitions ev devices st \<longrightarrow>
            set (captured st) \<union> set (ignored st) = set devices \<and>
            set (captured st) \<inter> set (ignored st) = {} \<and>
            (\<forall>e \<in> set devices. (e \<in> set (captured st)) = grabbed ev (m_grab_filters st) e))"
proof (intro conjI impI)
  show "\<exists>st'. set_grab_filters ev filters st = Some st' \<and> m_grab_filters st' = filters \<and>
            m_interception st' = m_interception st \<and> partitions ev (known st) st'"
    by (rule set_grab_filters_spec [OF assms])
  show "\<exists>st'. on_device_removed ev device st = Some st' \<and>
            m_grab_filters st' = m_grab_filters st \<and> m_interception st' = m_interception st \<and>
            partitions ev (remove_device device (known st)) st'"
    by (rule on_device_removed_spec [OF assms])
next
  assume "\<not> attach_resolves q"
  then show "on_device_attached ev w2u hw q device st = Some st"
    by (rule on_device_attached_unresolved)
next
  assume a: "attach_resolves q \<and>
          (\<forall>ic. m_interception st = Some ic \<longrightarrow>
                  hardware_ids_terminated hw ic \<and> terminated (q_hardware_ids q))"
  then have r: "attach_resolves q" and t: "\<forall>ic. m_interception st = Some ic \<longrightarrow>
                  hardware_ids_terminated hw ic \<and> terminated (q_hardware_ids q)"
    by simp_all
  from on_device_attached_returns [OF assms r t, of ev w2u device]
  obtain st1 where c: "on_device_attached ev w2u hw q device st = Some st1 \<and>
      (m_interception st1 = None) = (m_interception st = None) \<and>
      (\<forall>ic'. m_interception st1 = Some ic' \<longrightarrow> hardware_ids_terminated hw ic')" ..
  from c have s1: "on_device_attached ev w2u hw q device st = Some st1"
    "\<forall>ic'. m_interception st1 = Some ic' \<longrightarrow> hardware_ids_terminated hw ic'"
    and n: "(m_interception st1 = None) = (m_interception st = None)" by simp_all
  from on_device_attached_spec [OF assms r, of ev device w2u hw] s1(1)
  obtain st3 x where s3: "m_grab_filters st3 = m_grab_filters st"
    "m_interception st3 = m_interception st"
    "partitions ev (known st @ [(device, attach_desc w2u q)]) st3"
    "st1 = st3\<lparr>m_interception := x\<rparr>"
    by auto
  from s1 s3 n
  show "\<exists>st'. on_device_attached ev w2u hw q device st = Some st' \<and>
               m_grab_filters st' = m_grab_filters st \<and>
               partitions ev (known st @ [(device, attach_desc w2u q)]) st' \<and>
               (m_interception st' = None) = (m_interception st = None) \<and>
               (\<forall>ic'. m_interception st' = Some ic' \<longrightarrow> hardware_ids_terminated hw ic')"
    by simp
next
  assume a: "attach_resolves q \<and> on_device_attached ev w2u hw q device st = Some st'"
  then have r: "attach_resolves q" by simp
  from on_device_attached_spec [OF assms r, of ev device w2u hw] a
  obtain st3 x where "m_grab_filters st3 = m_grab_filters st"
    "partitions ev (known st @ [(device, attach_desc w2u q)]) st3"
    "st' = st3\<lparr>m_interception := x\<rparr>"
    by auto
  then show "m_grab_filters st' = m_grab_filters st"
    and "partitions ev (known st @ [(device, attach_desc w2u q)]) st'"
    by simp_all
next
  assume p: "partitions ev devices st"
  from partitions_facts [OF p]
  show "set (captured st) \<union> set (ignored st) = set devices"
    and "set (captured st) \<inter> set (ignored st) = {}"
    and "\<forall>e \<in> set devices. (e \<in> set (captured st)) = grabbed ev (m_grab_filters st) e"
    by simp_all
qed

lemma sample_roster_wf: "roster_wf sample_roster"
  by (simp add: roster_wf_def sample_roster_def Devices_new_def)

lemma Devices_new_partitions: "partitions ev [] Devices_new"
  unfolding partitions_def
proof (intro conjI)
  show "roster_wf Devices_new"
    unfolding roster_wf_def by (intro conjI) (simp_all add: Devices_new_def)
  show "captured Devices_new = filter (grabbed ev (m_grab_filters Devices_new)) []"
    by (simp add: captured_def Devices_new_def)
  show "ignored Devices_new = filter (\<lambda>e. \<not> grabbed ev (m_grab_filters Devices_new) e) []"
    by (simp add: ignored_def Devices_new_def)
qed

lemma sample_set_grab_filters:
  "map_option m_device_handles (set_grab_filters sample_evaluate [''keyboard''] sample_roster)
     = Some [1]"
  "map_option m_ignored_device_handles
     (set_grab_filters sample_evaluate [''keyboard''] sample_roster) = Some [2]"
  by code_simp+

lemma sample_query_resolves:
  "attach_resolves sample_query" "m_interception sample_roster = None"
  by (simp_all add: attach_resolves_def sample_query_def sample_roster_def Devices_new_def)

lemma sample_captured_roster_facts:
  "roster_wf sample_captured_roster"
  "m_interception sample_captured_roster = Some (interception unmatched_capture)"
  "hardware_ids_terminated (hardware_ids_of unmatched_driver) (interception unmatched_capture)"
  "terminated (q_hardware_ids sample_attach)"
  "attach_resolves sample_attach"
  using sample_roster_wf
  by (simp_all add: sample_captured_roster_def sample_attach_def hardware_ids_terminated_def
      unmatched_capture_def unmatched_driver_def terminated_def attach_resolves_def
      sample_query_def)

theorem roster_partition_witness:
  "roster_wf sample_roster \<and>
   (\<exists>st'. set_grab_filters sample_evaluate [''keyboard''] sample_roster = Some st' \<and>
      m_device_handles st' = [1] \<and> m_ignored_device_handles st' = [2] \<and>
      partitions sample_evaluate (known sample_roster) st') \<and>
   (\<exists>st'. on_device_attached sample_evaluate sample_utf8 (\<lambda>d. []) sample_query 3 sample_roster
        = Some st' \<and>
      partitions sample_evaluate
        (known sample_roster @ [(3, attach_desc sample_utf8 sample_query)]) st') \<and>
   roster_wf sample_captured_roster \<and>
   m_interception sample_captured_roster \<noteq> None \<and>
   (\<exists>st'. on_device_attached sample_evaluate sample_utf8 (hardware_ids_of unmatched_driver)
        sample_attach 3 sample_captured_roster = Some st' \<and>
      m_interception st' \<noteq> None \<and>
      partitions sample_evaluate
        (known sample_captured_roster @ [(3, attach_desc sample_utf8 sample_attach)]) st')"
proof -
  note th = roster_partition [OF sample_roster_wf, where ev = sample_evaluate
      and filters = "[''keyboard'']" and q = sample_query and ?w2u = sample_utf8
      and hw = "\<lambda>d. []" and device = 3]
  from th [THEN conjunct1] obtain st1 where c1:
    "set_grab_filters sample_evaluate [''keyboard''] sample_roster = Some st1 \<and>
     m_grab_filters st1 = [''keyboard''] \<and>
     m_interception st1 = m_interception sample_roster \<and>
     partitions sample_evaluate (known sample_roster) st1" ..
  then have s1: "set_grab_filters sample_evaluate [''keyboard''] sample_roster = Some st1"
    "partitions sample_evaluate (known sample_roster) st1"
    by simp_all
  from sample_set_grab_filters s1(1) have h: "m_device_handles st1 = [1]"
    "m_ignored_device_handles st1 = [2]" by simp_all
  have H: "attach_resolves sample_query \<and>
      (\<forall>ic. m_interception sample_roster = Some ic \<longrightarrow>
         hardware_ids_terminated (\<lambda>d. []) ic \<and> terminated (q_hardware_ids sample_query))"
    using sample_query_resolves by simp
  from mp [OF th [THEN conjunct2, THEN conjunct2, THEN conjunct2, THEN conjunct1] H]
  obtain st2 where c2:
    "on_device_attached sample_evaluate sample_utf8 (\<lambda>d. []) sample_query 3 sample_roster
       = Some st2 \<and>
     m_grab_filters st2 = m_grab_filters sample_roster \<and>
     partitions sample_evaluate
       (known sample_roster @ [(3, attach_desc sample_utf8 sample_query)]) st2 \<and>
     (m_interception st2 = None) = (m_interception sample_roster = None) \<and>
     (\<forall>ic'. m_interception st2 = Some ic' \<longrightarrow> hardware_ids_terminated (\<lambda>d. []) ic')" ..
  then have s2:
    "on_device_attached sample_evaluate sample_utf8 (\<lambda>d. []) sample_query 3 sample_roster
       = Some st2"
    "partitions sample_evaluate
      (known sample_roster @ [(3, attach_desc sample_utf8 sample_query)]) st2"
    by simp_all
  note th2 = roster_partition [OF sample_captured_roster_facts(1), where ev = sample_evaluate
      and q = sample_attach and ?w2u = sample_utf8
      and hw = "hardware_ids_of unmatched_driver" and device = 3]
  have H2: "attach_resolves sample_attach \<and>
      (\<forall>ic. m_interception sample_captured_roster = Some ic \<longrightarrow>
         hardware_ids_terminated (hardware_ids_of unmatched_driver) ic \<and>
         terminated (q_hardware_ids sample_attach))"
    using sample_captured_roster_facts by simp
  from mp [OF th2 [THEN conjunct2, THEN conjunct2, THEN conjunct2, THEN conjunct1] H2]
  obtain st3 where c3:
    "on_device_attached sample_evaluate sample_utf8 (hardware_ids_of unmatched_driver)
       sample_attach 3 sample_captured_roster = Some st3 \<and>
     m_grab_filters st3 = m_grab_filters sample_captured_roster \<and>
     partitions sample_evaluate
       (known sample_captured_roster @ [(3, attach_desc sample_utf8 sample_attach)]) st3 \<and>
     (m_interception st3 = None) = (m_interception sample_captured_roster = None) \<and>
     (\<forall>ic'. m_interception st3 = Some ic' \<longrightarrow>
        hardware_ids_terminated (hardware_ids_of unmatched_driver) ic')" ..
  then have s3:
    "on_device_attached sample_evaluate sample_utf8 (hardware_ids_of unmatched_driver)
       sample_attach 3 sample_captured_roster = Some st3"
    "partitions sample_evaluate
      (known sample_captured_roster @ [(3, attach_desc sample_utf8 sample_attach)]) st3"
    "(m_interception st3 = None) = (m_interception sample_captured_roster = None)"
    by simp_all
  from s3(3) sample_captured_roster_facts(2) have n3: "m_interception st3 \<noteq> None" by simp
  from sample_captured_roster_facts(2) have n0: "m_interception sample_captured_roster \<noteq> None"
    by simp
  have A: "\<exists>st'. set_grab_filters sample_evaluate [''keyboard''] sample_roster = Some st' \<and>
      m_device_handles st' = [1] \<and> m_ignored_device_handles st' = [2] \<and>
      partitions sample_evaluate (known sample_roster) st'"
    using s1 h by (intro exI [of _ st1]) simp
  have B: "\<exists>st'. on_device_attached sample_evaluate sample_utf8 (\<lambda>d. []) sample_query 3 sample_roster
        = Some st' \<and>
      partitions sample_evaluate
        (known sample_roster @ [(3, attach_desc sample_utf8 sample_query)]) st'"
    using s2 by (intro exI [of _ st2]) simp
  have C: "\<exists>st'. on_device_attached sample_evaluate sample_utf8 (hardware_ids_of unmatched_driver)
        sample_attach 3 sample_captured_roster = Some st' \<and>
      m_interception st' \<noteq> None \<and>
      partitions sample_evaluate
        (known sample_captured_roster @ [(3, attach_desc sample_utf8 sample_attach)]) st'"
    using s3(1,2) n3 by (intro exI [of _ st3]) simp
  from sample_roster_wf A B sample_captured_roster_facts(1) n0 C
  show ?thesis by (intro conjI)
qed

end
